theory Spec2Isabelle
  imports Complex_Main
begin

text \<open>
  A model of the ingredient normalizer (\<^verbatim>\<open>utils/text_norm.py\<close>) and of the recipe index
  (\<^verbatim>\<open>recipes/indexer.py\<close>): the string operations and regular expressions the normalizer
  applies, the loading of the recipes file, the construction of the index and the ranked
  search. The WordNet lemmatizer and the BM25 package are external libraries and are
  parameters of the model; the scorer of the package is modelled as well, for what the
  claims say of its scores.
\<close>

section \<open>Python strings\<close>

text \<open>
  Texts are ASCII strings. The character classes are those of Python's \<^verbatim>\<open>str\<close>
  methods and of the \<^verbatim>\<open>re\<close> module restricted to ASCII: a character above 127 is
  neither a word character nor whitespace here.
\<close>

definition is_digit :: "char \<Rightarrow> bool" where
  "is_digit c \<longleftrightarrow> c \<in> set ''0123456789''"

definition is_upper :: "char \<Rightarrow> bool" where
  "is_upper c \<longleftrightarrow> c \<in> set ''ABCDEFGHIJKLMNOPQRSTUVWXYZ''"

definition is_lower :: "char \<Rightarrow> bool" where
  "is_lower c \<longleftrightarrow> c \<in> set ''abcdefghijklmnopqrstuvwxyz''"

text \<open>\<^verbatim>\<open>\w\<close>: letters, digits and the underscore.\<close>

definition is_word :: "char \<Rightarrow> bool" where
  "is_word c \<longleftrightarrow> is_lower c \<or> is_upper c \<or> is_digit c \<or> c = CHR ''_''"

text \<open>\<^verbatim>\<open>\s\<close> and the whitespace of \<^verbatim>\<open>str.split()\<close> and \<^verbatim>\<open>str.strip()\<close>:
  tab, line feed, vertical tab, form feed, carriage return, the four separators
  0x1C to 0x1F and the space.\<close>

definition is_space :: "char \<Rightarrow> bool" where
  "is_space c \<longleftrightarrow> c \<in> {CHR 0x09, CHR 0x0A, CHR 0x0B, CHR 0x0C, CHR 0x0D,
                         CHR 0x1C, CHR 0x1D, CHR 0x1E, CHR 0x1F, CHR '' ''}"

definition lower_char :: "char \<Rightarrow> char" where
  "lower_char c =
     (case map_of (zip ''ABCDEFGHIJKLMNOPQRSTUVWXYZ'' ''abcdefghijklmnopqrstuvwxyz'') c of
        Some d \<Rightarrow> d
      | None \<Rightarrow> c)"

text \<open>\<^verbatim>\<open>text.lower()\<close>\<close>

definition lower :: "string \<Rightarrow> string" where
  "lower s = map lower_char s"

text \<open>\<^verbatim>\<open>text.strip()\<close>\<close>

definition strip :: "string \<Rightarrow> string" where
  "strip s = rev (dropWhile is_space (rev (dropWhile is_space s)))"

text \<open>\<^verbatim>\<open>text.split()\<close>: the maximal runs of non-whitespace characters. The scanner keeps
  the current run reversed in \<open>cur\<close>.\<close>

fun split_acc :: "string \<Rightarrow> string \<Rightarrow> string list" where
  "split_acc cur [] = (if cur = [] then [] else [rev cur])"
| "split_acc cur (c # cs) =
     (if is_space c
      then (if cur = [] then split_acc [] cs else rev cur # split_acc [] cs)
      else split_acc (c # cur) cs)"

definition py_split :: "string \<Rightarrow> string list" where
  "py_split s = split_acc [] s"

text \<open>\<^verbatim>\<open>text.split(sep)\<close> for a one-character separator: always at least one piece.\<close>

fun split_on :: "char \<Rightarrow> string \<Rightarrow> string list" where
  "split_on sep [] = [[]]"
| "split_on sep (c # cs) =
     (case split_on sep cs of
        [] \<Rightarrow> (if c = sep then [[], []] else [[c]])
      | w # ws \<Rightarrow> (if c = sep then [] # w # ws else (c # w) # ws))"

text \<open>\<^verbatim>\<open>' '.join(words)\<close>\<close>

fun join :: "string list \<Rightarrow> string" where
  "join [] = []"
| "join [w] = w"
| "join (w # v # ws) = w @ CHR '' '' # join (v # ws)"

section \<open>The regular expressions of the normalizer\<close>

text \<open>\<^verbatim>\<open>re.sub(r'[^\w\s-]', ' ', text)\<close>\<close>

definition punct_to_space :: "char \<Rightarrow> char" where
  "punct_to_space c = (if is_word c \<or> is_space c \<or> c = CHR ''-'' then c else CHR '' '')"

definition strip_punct :: "string \<Rightarrow> string" where
  "strip_punct s = map punct_to_space s"

text \<open>The unit alternation \<^verbatim>\<open>(cup|tbsp|tsp|oz|lb|g|kg|ml|l)\<close>, in the order of the pattern:
  the first alternative that is a prefix of the text is taken.\<close>

definition units :: "string list" where
  "units = [''cup'', ''tbsp'', ''tsp'', ''oz'', ''lb'', ''g'', ''kg'', ''ml'', ''l'']"

fun match_unit :: "string list \<Rightarrow> string \<Rightarrow> string option" where
  "match_unit [] s = None"
| "match_unit (u # us) s =
     (if take (length u) s = u then Some (drop (length u) s) else match_unit us s)"

text \<open>
  One match of \<^verbatim>\<open>\d+(\.\d+)?\s*(cup|tbsp|tsp|oz|lb|g|kg|ml|l)s?\<close> at the start of the
  text; the result is the text after the match. Every repetition is taken greedily.
  Backtracking never finds another match: after a shorter run of digits or of whitespace
  the next character is a digit or whitespace, where no unit starts, and nothing follows the
  optional \<^verbatim>\<open>s\<close>.
\<close>

definition match_quantity :: "string \<Rightarrow> string option" where
  "match_quantity s =
     (if takeWhile is_digit s = [] then None
      else
        let r1 = dropWhile is_digit s;
            r2 = (case r1 of
                    c # d # t \<Rightarrow> if c = CHR ''.'' \<and> is_digit d then dropWhile is_digit t else r1
                  | _ \<Rightarrow> r1);
            r3 = dropWhile is_space r2
        in case match_unit units r3 of
             None \<Rightarrow> None
           | Some r4 \<Rightarrow> Some (case r4 of c # t \<Rightarrow> if c = CHR ''s'' then t else r4 | [] \<Rightarrow> []))"

text \<open>One match of \<^verbatim>\<open>\d+/\d+\<close> at the start of the text.\<close>

definition match_fraction :: "string \<Rightarrow> string option" where
  "match_fraction s =
     (if takeWhile is_digit s = [] then None
      else case dropWhile is_digit s of
             c # d # t \<Rightarrow> if c = CHR ''/'' \<and> is_digit d then Some (dropWhile is_digit t) else None
           | _ \<Rightarrow> None)"

text \<open>
  \<^verbatim>\<open>re.sub(pattern, '', item)\<close> for a pattern that matches no empty string: scan from the
  left, delete each match and go on after it. \<open>skip\<close> counts the characters of the current
  match that are still to be deleted.
\<close>

fun sub_empty :: "(string \<Rightarrow> string option) \<Rightarrow> nat \<Rightarrow> string \<Rightarrow> string" where
  "sub_empty m skip [] = []"
| "sub_empty m (Suc skip) (c # cs) = sub_empty m skip cs"
| "sub_empty m 0 (c # cs) =
     (case m (c # cs) of
        None \<Rightarrow> c # sub_empty m 0 cs
      | Some rest \<Rightarrow> sub_empty m (length cs - length rest) cs)"

definition sub_quantity :: "string \<Rightarrow> string" where
  "sub_quantity s = sub_empty match_quantity 0 s"

definition sub_fraction :: "string \<Rightarrow> string" where
  "sub_fraction s = sub_empty match_fraction 0 s"

text \<open>\<^verbatim>\<open>re.sub(r'\d+', '', item)\<close>\<close>

definition sub_number :: "string \<Rightarrow> string" where
  "sub_number s = filter (\<lambda>c. \<not> is_digit c) s"

section \<open>TextNormalizer\<close>

text \<open>
  The fields of \<^verbatim>\<open>TextNormalizer\<close>. The WordNet lemmatizer is an external library: it is
  the field \<open>lemmatize\<close>, a function on words. The synonym table is the dictionary read
  from the synonyms file.
\<close>

record normalizer =
  lemmatize :: "string \<Rightarrow> string"
  synonyms :: "string \<rightharpoonup> string"
  stopwords :: "string set"

definition default_stopwords :: "string set" where
  "default_stopwords = {''water'', ''salt'', ''pepper'', ''oil'', ''optional'',
                        ''to'', ''taste'', ''fresh'', ''dried'', ''ground''}"

definition plural_table :: "(string \<times> string) list" where
  "plural_table =
     [(''tomatoes'', ''tomato''), (''potatoes'', ''potato''), (''onions'', ''onion''),
      (''peppers'', ''pepper''), (''mushrooms'', ''mushroom''), (''beans'', ''bean''),
      (''peas'', ''pea''), (''carrots'', ''carrot''), (''eggs'', ''egg''),
      (''noodles'', ''noodle'')]"

definition plural_map :: "string \<rightharpoonup> string" where
  "plural_map = map_of plural_table"

text \<open>\<^verbatim>\<open>TextNormalizer.__init__\<close>: \<^verbatim>\<open>stopwords or {...}\<close> takes the default set when no set or
  an empty set is given.\<close>

definition new_normalizer ::
  "(string \<Rightarrow> string) \<Rightarrow> (string \<rightharpoonup> string) \<Rightarrow> string set option \<Rightarrow> normalizer" where
  "new_normalizer lem syn sw =
     \<lparr>lemmatize = lem, synonyms = syn,
      stopwords = (case sw of None \<Rightarrow> default_stopwords
                   | Some s \<Rightarrow> if s = {} then default_stopwords else s)\<rparr>"

text \<open>The first three steps of \<^verbatim>\<open>normalize\<close>: lowercase and strip, replace punctuation,
  collapse whitespace.\<close>

definition cleanup :: "string \<Rightarrow> string" where
  "cleanup text = join (py_split (strip_punct (strip (lower text))))"

definition lookup_or_self :: "(string \<rightharpoonup> string) \<Rightarrow> string \<Rightarrow> string" where
  "lookup_or_self m t = (case m t of Some v \<Rightarrow> v | None \<Rightarrow> t)"

text \<open>The list \<^verbatim>\<open>words\<close> at the end of \<^verbatim>\<open>normalize\<close>, which the function joins with
  single spaces.\<close>

definition normalized_words :: "normalizer \<Rightarrow> string \<Rightarrow> bool \<Rightarrow> string list" where
  "normalized_words nz text remove_stopwords =
     (let t = cleanup text;
          t = lookup_or_self (synonyms nz) t;
          t = lookup_or_self plural_map t;
          ws = map (lemmatize nz) (py_split t)
      in if remove_stopwords then filter (\<lambda>w. w \<notin> stopwords nz) ws else ws)"

definition normalize_text :: "normalizer \<Rightarrow> string \<Rightarrow> bool \<Rightarrow> string" where
  "normalize_text nz text remove_stopwords = join (normalized_words nz text remove_stopwords)"

definition normalize_list :: "normalizer \<Rightarrow> string list \<Rightarrow> bool \<Rightarrow> string list" where
  "normalize_list nz items remove_stopwords = map (\<lambda>item. normalize_text nz item remove_stopwords) items"

text \<open>The body of the loop of \<^verbatim>\<open>tokenize_ingredients\<close> for one item.\<close>

definition strip_quantities :: "string \<Rightarrow> string" where
  "strip_quantities item = sub_number (sub_fraction (sub_quantity item))"

fun tokenize_items :: "normalizer \<Rightarrow> string list \<Rightarrow> string list \<Rightarrow> string list" where
  "tokenize_items nz [] normalized = normalized"
| "tokenize_items nz (item # items) normalized =
     (let norm = normalize_text nz (strip_quantities item) True
      in tokenize_items nz items (if norm \<noteq> [] then normalized @ [norm] else normalized))"

definition tokenize_ingredients :: "normalizer \<Rightarrow> string \<Rightarrow> string list" where
  "tokenize_ingredients nz ingredients_str =
     tokenize_items nz (map strip (split_on CHR '','' ingredients_str)) []"

definition extract_key_terms :: "normalizer \<Rightarrow> string \<Rightarrow> string list" where
  "extract_key_terms nz text = filter (\<lambda>w. length w > 2) (py_split (normalize_text nz text True))"

section \<open>Recipes and the object store\<close>

text \<open>The exceptions of the Python code that the model distinguishes.\<close>

datatype py_error =
  FileNotFoundError | KeyError | ValueError | AttributeError | TypeError | IndexError
  | ZeroDivisionError

text \<open>The \<^verbatim>\<open>Recipe\<close> model of \<^verbatim>\<open>schemas.py\<close>. A float is a real number here: there is
  no NaN and no infinity.\<close>

record recipe =
  rid :: int
  title :: string
  ingredients :: "string list"
  instructions :: string
  cuisine :: string
  tags :: "string list"
  time_minutes :: "int option"
  score :: "real option"

text \<open>
  Recipe objects live in a store; an address is a position in it. \<^verbatim>\<open>self.recipes\<close> and the
  result of a search are lists of addresses, so that a copy and the object it was copied
  from are told apart.
\<close>

type_synonym heap = "recipe list"

text \<open>\<^verbatim>\<open>model_copy()\<close>: a new object with the same field values.\<close>

definition model_copy :: "heap \<Rightarrow> nat \<Rightarrow> nat \<times> heap" where
  "model_copy h a = (length h, h @ [h ! a])"

text \<open>\<^verbatim>\<open>recipe.score = v\<close>\<close>

definition set_score :: "heap \<Rightarrow> nat \<Rightarrow> real \<Rightarrow> heap" where
  "set_score h a v = h[a := (h ! a)\<lparr>score := Some v\<rparr>]"

section \<open>Loading the corpus\<close>

text \<open>
  A row of \<^verbatim>\<open>csv.DictReader\<close>: a dictionary from the column names of the header to the
  cells of the line. A line with fewer cells than the header has the value \<^verbatim>\<open>None\<close> in the
  columns it lacks.
\<close>

datatype py_val = PyNone | PyStr string

type_synonym row = "string \<rightharpoonup> py_val"

text \<open>
  \<^verbatim>\<open>int(s)\<close> on a string. For an ASCII string the whitespace it skips at both ends is that of
  C (tab, line feed, vertical tab, form feed, carriage return, space), not the separators
  0x1C to 0x1F. Then come an optional sign and decimal digits, where single underscores may
  separate digits; more than 4300 digits are refused. \<open>None\<close> is the ValueError.
\<close>

definition is_c_space :: "char \<Rightarrow> bool" where
  "is_c_space c \<longleftrightarrow> c \<in> {CHR 0x09, CHR 0x0A, CHR 0x0B, CHR 0x0C, CHR 0x0D, CHR '' ''}"

definition digit_val :: "char \<Rightarrow> int" where
  "digit_val c = int (of_char c) - 48"

fun parse_digits :: "string \<Rightarrow> bool \<Rightarrow> int \<Rightarrow> int option" where
  "parse_digits [] after_digit acc = (if after_digit then Some acc else None)"
| "parse_digits (c # cs) after_digit acc =
     (if is_digit c then parse_digits cs True (10 * acc + digit_val c)
      else if c = CHR ''_'' \<and> after_digit \<and> cs \<noteq> [] \<and> is_digit (hd cs)
      then parse_digits cs False acc
      else None)"

definition py_int :: "string \<Rightarrow> int option" where
  "py_int s =
     (let t = rev (dropWhile is_c_space (rev (dropWhile is_c_space s)))
      in if 4300 < length (filter is_digit t) then None
         else case t of
                [] \<Rightarrow> None
              | c # cs \<Rightarrow>
                  if c = CHR ''-'' then map_option uminus (parse_digits cs False 0)
                  else if c = CHR ''+'' then parse_digits cs False 0
                  else parse_digits (c # cs) False 0)"

text \<open>\<^verbatim>\<open>row[key]\<close>\<close>

definition get_item :: "row \<Rightarrow> string \<Rightarrow> py_error + py_val" where
  "get_item row key = (case row key of None \<Rightarrow> Inl KeyError | Some v \<Rightarrow> Inr v)"

text \<open>\<^verbatim>\<open>[x.strip() for x in row[key].split(',')]\<close>: \<^verbatim>\<open>None\<close> has no method \<^verbatim>\<open>split\<close>.\<close>

definition split_field :: "row \<Rightarrow> string \<Rightarrow> py_error + string list" where
  "split_field row key =
     (case get_item row key of
        Inl e \<Rightarrow> Inl e
      | Inr PyNone \<Rightarrow> Inl AttributeError
      | Inr (PyStr s) \<Rightarrow> Inr (map strip (split_on CHR '','' s)))"

text \<open>The optional time: \<^verbatim>\<open>row.get('time_minutes')\<close> must be a non-empty string, and a
  ValueError of \<^verbatim>\<open>int\<close> is passed over.\<close>

definition parse_time :: "row \<Rightarrow> int option" where
  "parse_time row =
     (case row ''time_minutes'' of
        Some (PyStr s) \<Rightarrow> if s \<noteq> [] then py_int s else None
      | _ \<Rightarrow> None)"

text \<open>\<^verbatim>\<open>int(row['id'])\<close>: \<^verbatim>\<open>int(None)\<close> is a TypeError.\<close>

definition parse_id :: "row \<Rightarrow> py_error + int" where
  "parse_id row =
     (case get_item row ''id'' of
        Inl e \<Rightarrow> Inl e
      | Inr PyNone \<Rightarrow> Inl TypeError
      | Inr (PyStr s) \<Rightarrow> (case py_int s of None \<Rightarrow> Inl ValueError | Some n \<Rightarrow> Inr n))"

text \<open>The validation of a \<^verbatim>\<open>str\<close> field by the \<^verbatim>\<open>Recipe\<close> constructor: its
  ValidationError is a ValueError.\<close>

definition validate_str :: "py_val \<Rightarrow> py_error + string" where
  "validate_str v = (case v of PyNone \<Rightarrow> Inl ValueError | PyStr s \<Rightarrow> Inr s)"

text \<open>Sequencing of statements that may raise: the first exception ends the block.\<close>

definition then_do :: "py_error + 'a \<Rightarrow> ('a \<Rightarrow> py_error + 'b) \<Rightarrow> py_error + 'b" where
  "then_do m f = (case m of Inl e \<Rightarrow> Inl e | Inr x \<Rightarrow> f x)"

text \<open>The body of the \<^verbatim>\<open>try\<close> block of \<^verbatim>\<open>_load_recipes\<close>, in the order of evaluation of
  the source: ingredients, tags, time, then the arguments of \<^verbatim>\<open>Recipe(...)\<close>, then its
  validation.\<close>

definition parse_row :: "row \<Rightarrow> py_error + recipe" where
  "parse_row row =
     then_do (split_field row ''ingredients'') (\<lambda>ings.
     then_do (split_field row ''tags'') (\<lambda>tgs.
     then_do (parse_id row) (\<lambda>n.
     then_do (get_item row ''title'') (\<lambda>t.
     then_do (get_item row ''instructions'') (\<lambda>ins.
     then_do (get_item row ''cuisine'') (\<lambda>cu.
     then_do (validate_str t) (\<lambda>t'.
     then_do (validate_str ins) (\<lambda>ins'.
     then_do (validate_str cu) (\<lambda>cu'.
       Inr \<lparr>rid = n, title = t', ingredients = ings, instructions = ins', cuisine = cu',
            tags = tgs, time_minutes = parse_time row, score = None\<rparr>)))))))))"

text \<open>What the code prints while it loads and builds.\<close>

datatype log_event = SkippedRow py_error | Loaded nat | Built nat

text \<open>The loop of \<^verbatim>\<open>_load_recipes\<close>: \<^verbatim>\<open>except (KeyError, ValueError)\<close> prints a warning
  and continues; any other exception leaves the loop.\<close>

fun load_rows ::
  "row list \<Rightarrow> nat list \<Rightarrow> heap \<Rightarrow> log_event list \<Rightarrow> py_error + (nat list \<times> heap \<times> log_event list)"
where
  "load_rows [] rs h lg = Inr (rs, h, lg)"
| "load_rows (row # rows) rs h lg =
     (case parse_row row of
        Inr r \<Rightarrow> load_rows rows (rs @ [length h]) (h @ [r]) lg
      | Inl e \<Rightarrow>
          if e = KeyError \<or> e = ValueError then load_rows rows rs h (lg @ [SkippedRow e])
          else Inl e)"

text \<open>\<^verbatim>\<open>_load_recipes\<close>: the source is \<open>None\<close> when the file does not exist.\<close>

definition load_recipes ::
  "row list option \<Rightarrow> heap \<Rightarrow> py_error + (nat list \<times> heap \<times> log_event list)" where
  "load_recipes source h =
     (case source of
        None \<Rightarrow> Inl FileNotFoundError
      | Some rows \<Rightarrow>
          (case load_rows rows [] h [] of
             Inl e \<Rightarrow> Inl e
           | Inr (rs, h', lg) \<Rightarrow> Inr (rs, h', lg @ [Loaded (length rs)])))"

section \<open>RecipeIndexer\<close>

text \<open>
  The package \<^verbatim>\<open>rank_bm25\<close> is an external library. A \<open>bm25\<close> object is its method
  \<^verbatim>\<open>get_scores\<close>, from the query tokens to one score per document; the constructor
  \<^verbatim>\<open>BM25Okapi\<close> takes the tokenized corpus and may raise.
\<close>

type_synonym bm25 = "string list \<Rightarrow> real list"

type_synonym bm25_okapi = "string list list \<Rightarrow> py_error + bm25"

record indexer =
  normalizer :: normalizer
  recipes :: "nat list"
  bm25 :: "bm25 option"
  tokenized_corpus :: "string list list"

text \<open>The tokens of one recipe in \<^verbatim>\<open>_build_index\<close>.\<close>

definition recipe_tokens :: "normalizer \<Rightarrow> recipe \<Rightarrow> string list" where
  "recipe_tokens nz r =
     (let ingredient_text = join (ingredients r);
          tokens = tokenize_ingredients nz ingredient_text;
          title_tokens = extract_key_terms nz (title r)
      in tokens @ title_tokens)"

text \<open>\<^verbatim>\<open>RecipeIndexer.__init__\<close>: \<^verbatim>\<open>_load_recipes\<close>, then \<^verbatim>\<open>_build_index\<close>.\<close>

definition new_indexer ::
  "bm25_okapi \<Rightarrow> normalizer \<Rightarrow> row list option \<Rightarrow> heap
     \<Rightarrow> py_error + (indexer \<times> heap \<times> log_event list)" where
  "new_indexer BM25Okapi nz source h =
     (case load_recipes source h of
        Inl e \<Rightarrow> Inl e
      | Inr (rs, h', lg) \<Rightarrow>
          let corpus = map (\<lambda>a. recipe_tokens nz (h' ! a)) rs
          in (case BM25Okapi corpus of
                Inl e \<Rightarrow> Inl e
              | Inr bm \<Rightarrow>
                  Inr (\<lparr>normalizer = nz, recipes = rs, bm25 = Some bm,
                        tokenized_corpus = corpus\<rparr>,
                       h', lg @ [Built (length corpus)])))"

text \<open>The query tokens of \<^verbatim>\<open>search\<close>: the words of the normalized ingredients, without
  duplicates, first occurrences kept.\<close>

fun dedup :: "string list \<Rightarrow> string set \<Rightarrow> string list" where
  "dedup [] seen = []"
| "dedup (t # ts) seen = (if t \<in> seen then dedup ts seen else t # dedup ts (insert t seen))"

definition query_tokens :: "normalizer \<Rightarrow> string list \<Rightarrow> string list" where
  "query_tokens nz ings = dedup (concat (map py_split (normalize_list nz ings True))) {}"

text \<open>The slice \<^verbatim>\<open>xs[:k]\<close>: a negative \<open>k\<close> counts from the end.\<close>

definition py_take :: "int \<Rightarrow> 'a list \<Rightarrow> 'a list" where
  "py_take k xs = (if 0 \<le> k then take (nat k) xs else take (length xs - nat (- k)) xs)"

text \<open>
  \<^verbatim>\<open>sorted(range(len(scores)), key=lambda i: scores[i], reverse=True)[:k]\<close>. Python's sort
  is stable, also with \<^verbatim>\<open>reverse=True\<close>: it is the stable ascending sort by the negated
  score.
\<close>

definition top_indices :: "real list \<Rightarrow> int \<Rightarrow> nat list" where
  "top_indices scores k = py_take k (sort_key (\<lambda>i. - (scores ! i)) [0..<length scores])"

text \<open>The loop that builds the results: \<^verbatim>\<open>self.recipes[idx]\<close> raises IndexError out of
  range.\<close>

fun collect ::
  "nat list \<Rightarrow> real list \<Rightarrow> nat list \<Rightarrow> nat list \<Rightarrow> heap \<Rightarrow> (py_error + nat list) \<times> heap" where
  "collect rs scores [] results h = (Inr results, h)"
| "collect rs scores (i # is) results h =
     (if i < length rs
      then let (a, h1) = model_copy h (rs ! i);
               h2 = set_score h1 a (scores ! i)
           in collect rs scores is (results @ [a]) h2
      else (Inl IndexError, h))"

definition search ::
  "indexer \<Rightarrow> heap \<Rightarrow> string list \<Rightarrow> int \<Rightarrow> (py_error + nat list) \<times> heap" where
  "search ix h ings k =
     (case bm25 ix of
        None \<Rightarrow> (Inr [], h)
      | Some bm \<Rightarrow>
          let qt = query_tokens (normalizer ix) ings
          in if qt = [] then (Inr [], h)
             else let scores = bm qt
                  in collect (recipes ix) scores (top_indices scores k) [] h)"

fun get_recipe_by_id :: "heap \<Rightarrow> nat list \<Rightarrow> int \<Rightarrow> nat option" where
  "get_recipe_by_id h [] recipe_id = None"
| "get_recipe_by_id h (a # as) recipe_id =
     (if rid (h ! a) = recipe_id then Some a else get_recipe_by_id h as recipe_id)"

definition get_recipe_count :: "indexer \<Rightarrow> nat" where
  "get_recipe_count ix = length (recipes ix)"

text \<open>Any number of searches, one after the other; only the store is passed on, since
  \<^verbatim>\<open>search\<close> assigns no field of the indexer.\<close>

fun searches :: "indexer \<Rightarrow> heap \<Rightarrow> (string list \<times> int) list \<Rightarrow> heap" where
  "searches ix h [] = h"
| "searches ix h ((ings, k) # qs) = searches ix (snd (search ix h ings k)) qs"

section \<open>Canonical words and concrete instances\<close>

text \<open>A canonical word is what \<^verbatim>\<open>normalize\<close> leaves of a text before the tables and the
  lemmatizer: not empty, made of word characters and hyphens, without capitals.\<close>

definition canonical_char :: "char \<Rightarrow> bool" where
  "canonical_char c \<longleftrightarrow> (is_word c \<or> c = CHR ''-'') \<and> \<not> is_upper c"

definition canonical_word :: "string \<Rightarrow> bool" where
  "canonical_word w \<longleftrightarrow> w \<noteq> [] \<and> list_all canonical_char w"

text \<open>For the evaluation on concrete inputs: a lemmatizer that agrees with the noun lemmas
  of WordNet on the plurals of the examples and leaves every other word as it is.\<close>

definition sample_lemmas :: "(string \<times> string) list" where
  "sample_lemmas =
     [(''tomatoes'', ''tomato''), (''cups'', ''cup''), (''eggs'', ''egg''),
      (''scallions'', ''scallion'')]"

definition sample_lemmatize :: "string \<Rightarrow> string" where
  "sample_lemmatize w = (case map_of sample_lemmas w of Some v \<Rightarrow> v | None \<Rightarrow> w)"

text \<open>The normalizer of a process whose synonyms file is missing (an empty table), and the
  one with the synonym table \<^verbatim>\<open>{"scallion": "green onion"}\<close>.\<close>

definition plain_normalizer :: normalizer where
  "plain_normalizer = new_normalizer sample_lemmatize Map.empty None"

definition scallion_normalizer :: normalizer where
  "scallion_normalizer =
     new_normalizer sample_lemmatize [''scallion'' \<mapsto> ''green onion''] None"

text \<open>The WordNet lemmatizer on the words \<^verbatim>\<open>pass\<close>, \<^verbatim>\<open>pas\<close> and \<^verbatim>\<open>pa\<close>: it takes the final
  \<^verbatim>\<open>s\<close> off \<^verbatim>\<open>pass\<close>, since \<^verbatim>\<open>pas\<close> is a noun of WordNet, and off \<^verbatim>\<open>pas\<close>, since \<^verbatim>\<open>pa\<close>
  is one.\<close>

definition pass_lemmatize :: "string \<Rightarrow> string" where
  "pass_lemmatize w = (if w = ''pass'' then ''pas'' else if w = ''pas'' then ''pa'' else w)"

definition pass_normalizer :: normalizer where
  "pass_normalizer = new_normalizer pass_lemmatize Map.empty None"

text \<open>A synonym table whose value has capitals: \<^verbatim>\<open>{"scallion": "Green Onion"}\<close>.\<close>

definition capital_normalizer :: normalizer where
  "capital_normalizer =
     new_normalizer sample_lemmatize [''scallion'' \<mapsto> ''Green Onion''] None"

text \<open>The recipes of the rows that the loop of \<^verbatim>\<open>_load_recipes\<close> does not skip.\<close>

fun accepted :: "row list \<Rightarrow> recipe list" where
  "accepted [] = []"
| "accepted (row # rows) =
     (case parse_row row of Inr r \<Rightarrow> r # accepted rows | Inl e \<Rightarrow> accepted rows)"

text \<open>The ids of the loaded collection, in corpus order.\<close>

definition loaded_ids :: "indexer \<Rightarrow> heap \<Rightarrow> int list" where
  "loaded_ids ix h = map (\<lambda>a. rid (h ! a)) (recipes ix)"

text \<open>A complete line of a recipes file with the header
  \<^verbatim>\<open>id,title,ingredients,instructions,cuisine,tags,time_minutes\<close>.\<close>

definition full_row :: "string \<Rightarrow> string \<Rightarrow> string \<Rightarrow> row" where
  "full_row i t ings =
     map_of [(''id'', PyStr i), (''title'', PyStr t), (''ingredients'', PyStr ings),
             (''instructions'', PyStr ''Cook.''), (''cuisine'', PyStr ''any''),
             (''tags'', PyStr ''quick,easy''), (''time_minutes'', PyStr ''20'')]"

text \<open>The line \<^verbatim>\<open>3,Broken\<close> of such a file: the reader fills the five missing columns
  with \<^verbatim>\<open>None\<close>.\<close>

definition short_row :: row where
  "short_row =
     map_of [(''id'', PyStr ''3''), (''title'', PyStr ''Broken''), (''ingredients'', PyNone),
             (''instructions'', PyNone), (''cuisine'', PyNone), (''tags'', PyNone),
             (''time_minutes'', PyNone)]"

definition chicken_rice :: row where
  "chicken_rice = full_row ''1'' ''Chicken Rice'' ''chicken breast,rice,soy sauce''"

definition tomato_pasta :: row where
  "tomato_pasta = full_row ''2'' ''Tomato Pasta'' ''tomato,pasta,basil''"

text \<open>The corpus of the two recipes, and a file in which both lines carry the id 1.\<close>

definition two_recipes :: "row list" where
  "two_recipes = [chicken_rice, tomato_pasta]"

definition duplicate_id_rows :: "row list" where
  "duplicate_id_rows = [chicken_rice, full_row ''1'' ''Tomato Pasta'' ''tomato,pasta,basil'']"

text \<open>For the evaluation on concrete inputs: a stand-in for the constructor of the external
  package. The score of a document is the number of its tokens that occur in the query.\<close>

definition overlap_scores :: bm25_okapi where
  "overlap_scores corpus =
     Inr (\<lambda>query. map (\<lambda>doc. real (length (filter (\<lambda>t. t \<in> set query) doc))) corpus)"

section \<open>The package rank_bm25\<close>

text \<open>
  Modelled from the published package \<^verbatim>\<open>rank_bm25\<close>, an external library that is not part of
  the repository: the class \<^verbatim>\<open>BM25Okapi\<close> with its defaults \<^verbatim>\<open>k1 = 1.5\<close>, \<^verbatim>\<open>b = 0.75\<close> and
  \<^verbatim>\<open>epsilon = 0.25\<close>, over the real numbers.
\<close>

definition okapi_k1 :: real where
  "okapi_k1 = 3 / 2"

definition okapi_b :: real where
  "okapi_b = 3 / 4"

definition okapi_epsilon :: real where
  "okapi_epsilon = 1 / 4"

text \<open>\<^verbatim>\<open>doc_freqs\<close>: how often a word occurs in a document.\<close>

definition term_freq :: "string \<Rightarrow> string list \<Rightarrow> nat" where
  "term_freq w doc = length (filter (\<lambda>t. t = w) doc)"

text \<open>\<^verbatim>\<open>nd\<close>: the number of documents with the word; its keys are the words of the corpus.\<close>

definition doc_count :: "string list list \<Rightarrow> string \<Rightarrow> nat" where
  "doc_count corpus w = length (filter (\<lambda>doc. w \<in> set doc) corpus)"

definition vocabulary :: "string list list \<Rightarrow> string list" where
  "vocabulary corpus = remdups (concat corpus)"

text \<open>\<^verbatim>\<open>avgdl = num_doc / corpus_size\<close>\<close>

definition avgdl :: "string list list \<Rightarrow> real" where
  "avgdl corpus = real (sum_list (map length corpus)) / real (length corpus)"

text \<open>\<^verbatim>\<open>_calc_idf\<close>: \<^verbatim>\<open>log(corpus_size - freq + 0.5) - log(freq + 0.5)\<close> for every word, and a
  word whose value is negative gets \<^verbatim>\<open>epsilon * average_idf\<close> instead, where the average is
  taken over the values of all words before the replacement.\<close>

definition raw_idf :: "string list list \<Rightarrow> string \<Rightarrow> real" where
  "raw_idf corpus w =
     ln (real (length corpus) - real (doc_count corpus w) + 1 / 2)
       - ln (real (doc_count corpus w) + 1 / 2)"

definition average_idf :: "string list list \<Rightarrow> real" where
  "average_idf corpus =
     sum_list (map (raw_idf corpus) (vocabulary corpus)) / real (length (vocabulary corpus))"

definition idf :: "string list list \<Rightarrow> string \<Rightarrow> real" where
  "idf corpus w =
     (if raw_idf corpus w < 0 then okapi_epsilon * average_idf corpus else raw_idf corpus w)"

text \<open>\<^verbatim>\<open>get_scores\<close>: a query word outside the corpus has the weight 0
  (\<^verbatim>\<open>self.idf.get(q) or 0\<close>).\<close>

definition okapi_term :: "string list list \<Rightarrow> string \<Rightarrow> string list \<Rightarrow> real" where
  "okapi_term corpus q doc =
     (if q \<in> set (vocabulary corpus) then idf corpus q else 0)
       * (real (term_freq q doc) * (okapi_k1 + 1)
            / (real (term_freq q doc)
                 + okapi_k1 * (1 - okapi_b + okapi_b * real (length doc) / avgdl corpus)))"

definition get_scores :: "string list list \<Rightarrow> bm25" where
  "get_scores corpus query = map (\<lambda>doc. sum_list (map (\<lambda>q. okapi_term corpus q doc) query)) corpus"

text \<open>The constructor: both averages are divisions, by the number of documents and by the
  number of words of the corpus.\<close>

definition rank_bm25_okapi :: bm25_okapi where
  "rank_bm25_okapi corpus =
     (if length corpus = 0 then Inl ZeroDivisionError
      else if length (vocabulary corpus) = 0 then Inl ZeroDivisionError
      else Inr (get_scores corpus))"

text \<open>A recipes file with three lines for the same dish.\<close>

definition rice_rows :: "row list" where
  "rice_rows = [full_row ''1'' ''Rice'' ''rice'', full_row ''2'' ''Rice'' ''rice'',
                full_row ''3'' ''Rice'' ''rice'']"

section \<open>Splitting and joining\<close>

lemma split_acc_nonspace:
  "\<forall>c\<in>set xs. \<not> is_space c \<Longrightarrow> split_acc cur (xs @ ys) = split_acc (rev xs @ cur) ys"
  by (induction xs arbitrary: cur) auto

lemma split_acc_spaces:
  "\<forall>c\<in>set sp. is_space c \<Longrightarrow> split_acc [] (sp @ s) = split_acc [] s"
  by (induction sp) auto

lemma split_acc_trailing:
  "\<forall>c\<in>set sp. is_space c \<Longrightarrow> split_acc cur (s @ sp) = split_acc cur s"
proof (induction s arbitrary: cur)
  case Nil
  then show ?case by (induction sp arbitrary: cur) auto
next
  case (Cons c s)
  then show ?case by auto
qed

lemma py_split_pad:
  "\<forall>c\<in>set a. is_space c \<Longrightarrow> \<forall>c\<in>set b. is_space c \<Longrightarrow> py_split (a @ s @ b) = py_split s"
  by (simp add: py_split_def split_acc_spaces split_acc_trailing)

lemma split_acc_words:
  "w \<in> set (split_acc cur s) \<Longrightarrow> \<forall>c\<in>set cur. \<not> is_space c
     \<Longrightarrow> w \<noteq> [] \<and> (\<forall>c\<in>set w. \<not> is_space c \<and> c \<in> set cur \<union> set s)"
proof (induction s arbitrary: cur)
  case Nil
  then show ?case by (auto split: if_splits)
next
  case (Cons c s)
  show ?case
  proof (cases "is_space c")
    case True
    with Cons.prems have "w = rev cur \<and> cur \<noteq> [] \<or> w \<in> set (split_acc [] s)"
      by (auto split: if_splits)
    then show ?thesis
    proof
      assume "w = rev cur \<and> cur \<noteq> []"
      with Cons.prems(2) show ?thesis by auto
    next
      assume "w \<in> set (split_acc [] s)"
      from Cons.IH[OF this] show ?thesis by auto
    qed
  next
    case False
    with Cons.prems have "w \<in> set (split_acc (c # cur) s)" by simp
    from Cons.IH[OF this] False Cons.prems(2) show ?thesis by auto
  qed
qed

lemma py_split_words:
  "w \<in> set (py_split s) \<Longrightarrow> w \<noteq> [] \<and> (\<forall>c\<in>set w. \<not> is_space c \<and> c \<in> set s)"
  using split_acc_words[of w "[]" s] by (simp add: py_split_def)

lemma space_is_space: "is_space CHR '' ''"
  by (simp add: is_space_def)

lemma py_split_join:
  "\<forall>w\<in>set ws. w \<noteq> [] \<and> (\<forall>c\<in>set w. \<not> is_space c) \<Longrightarrow> py_split (join ws) = ws"
proof (induction ws rule: join.induct)
  case 1
  then show ?case by (simp add: py_split_def)
next
  case (2 w)
  then have "split_acc [] (w @ []) = split_acc (rev w @ []) []"
    by (intro split_acc_nonspace) simp
  with 2 show ?case by (simp add: py_split_def)
next
  case (3 w v ws)
  then have "split_acc [] (w @ (CHR '' '' # join (v # ws))) = split_acc (rev w @ []) (CHR '' '' # join (v # ws))"
    by (intro split_acc_nonspace) simp
  with 3 show ?case by (simp add: py_split_def space_is_space)
qed

lemma strip_decomp:
  "\<exists>a b. s = a @ strip s @ b \<and> (\<forall>c\<in>set a. is_space c) \<and> (\<forall>c\<in>set b. is_space c)"
proof -
  let ?t = "dropWhile is_space s"
  have 1: "s = takeWhile is_space s @ ?t" by simp
  have "rev (rev ?t) = rev (takeWhile is_space (rev ?t) @ dropWhile is_space (rev ?t))"
    by (simp only: takeWhile_dropWhile_id)
  then have 3: "?t = strip s @ rev (takeWhile is_space (rev ?t))"
    by (simp only: rev_append rev_rev_ident strip_def)
  have "s = takeWhile is_space s @ strip s @ rev (takeWhile is_space (rev ?t))"
    using 1 3 by metis
  moreover have "\<forall>c\<in>set (takeWhile is_space s). is_space c"
    by (auto dest: set_takeWhileD)
  moreover have "\<forall>c\<in>set (rev (takeWhile is_space (rev ?t))). is_space c"
    by (auto dest: set_takeWhileD)
  ultimately show ?thesis by blast
qed

lemma is_space_lower_char: "is_space (lower_char c) \<longleftrightarrow> is_space c"
  by (auto simp: lower_char_def is_space_def)

lemma is_space_punct: "is_space c \<Longrightarrow> punct_to_space c = c"
  by (simp add: punct_to_space_def)

lemma py_split_canon_strip:
  "py_split (strip_punct (lower (strip s))) = py_split (strip_punct (lower s))"
proof -
  obtain a b where s: "s = a @ strip s @ b" and a: "\<forall>c\<in>set a. is_space c" and b: "\<forall>c\<in>set b. is_space c"
    using strip_decomp by blast
  let ?f = "\<lambda>x. strip_punct (lower x)"
  have "?f s = ?f a @ ?f (strip s) @ ?f b"
    using arg_cong[OF s, of ?f] by (simp add: strip_punct_def lower_def)
  moreover have "\<forall>c\<in>set (?f a). is_space c" using a
    by (auto simp: strip_punct_def lower_def is_space_lower_char is_space_punct)
  moreover have "\<forall>c\<in>set (?f b). is_space c" using b
    by (auto simp: strip_punct_def lower_def is_space_lower_char is_space_punct)
  ultimately show ?thesis by (simp add: py_split_pad)
qed

lemma py_split_punct_strip:
  "py_split (strip_punct (strip s)) = py_split (strip_punct s)"
proof -
  obtain a b where s: "s = a @ strip s @ b" and a: "\<forall>c\<in>set a. is_space c" and b: "\<forall>c\<in>set b. is_space c"
    using strip_decomp by blast
  have "strip_punct s = strip_punct a @ strip_punct (strip s) @ strip_punct b"
    using arg_cong[OF s, of strip_punct] by (simp add: strip_punct_def)
  moreover have "\<forall>c\<in>set (strip_punct a). is_space c" using a
    by (auto simp: strip_punct_def is_space_punct)
  moreover have "\<forall>c\<in>set (strip_punct b). is_space c" using b
    by (auto simp: strip_punct_def is_space_punct)
  ultimately show ?thesis by (simp add: py_split_pad)
qed

lemma cleanup_alt: "cleanup text = join (py_split (strip_punct (lower text)))"
  by (simp add: cleanup_def py_split_punct_strip)

lemma cleanup_strip: "cleanup (strip text) = cleanup text"
  by (simp add: cleanup_alt py_split_canon_strip)

lemma normalize_strip: "normalize_text nz (strip text) r = normalize_text nz text r"
  by (simp add: normalize_text_def normalized_words_def cleanup_strip)

section \<open>The cleaned text\<close>

lemma lower_char_None: "map_of (zip ''ABCDEFGHIJKLMNOPQRSTUVWXYZ'' ''abcdefghijklmnopqrstuvwxyz'') c = None \<longleftrightarrow> \<not> is_upper c"
  unfolding is_upper_def map_of_eq_None_iff by simp

lemma lower_char_fix: "\<not> is_upper c \<Longrightarrow> lower_char c = c"
  using lower_char_None[of c] by (simp add: lower_char_def)

lemma lower_char_range: "is_upper c \<Longrightarrow> is_lower (lower_char c)"
  unfolding is_upper_def is_lower_def lower_char_def by auto

lemma lower_not_upper: "is_lower c \<Longrightarrow> \<not> is_upper c"
  unfolding is_upper_def is_lower_def by auto

lemma not_upper_lower_char: "\<not> is_upper (lower_char c)"
proof (cases "is_upper c")
  case True
  then show ?thesis by (intro lower_not_upper lower_char_range)
next
  case False
  then show ?thesis by (simp add: lower_char_fix)
qed

lemma word_not_space: "is_word c \<or> c = CHR ''-'' \<Longrightarrow> \<not> is_space c"
  unfolding is_word_def is_space_def is_lower_def is_upper_def is_digit_def by auto

lemma space_not_upper: "is_space c \<Longrightarrow> \<not> is_upper c"
  unfolding is_space_def is_upper_def by auto

lemma canonical_of_cleaned:
  assumes "\<not> is_space (punct_to_space (lower_char c))"
  shows "canonical_char (punct_to_space (lower_char c))"
proof -
  from assms have "punct_to_space (lower_char c) = lower_char c"
    by (auto simp: punct_to_space_def space_is_space split: if_splits)
  moreover from assms have "is_word (lower_char c) \<or> lower_char c = CHR ''-''"
    by (auto simp: punct_to_space_def space_is_space split: if_splits)
  ultimately show ?thesis by (simp add: canonical_char_def not_upper_lower_char)
qed

lemma canonical_char_fixed:
  assumes "canonical_char c \<or> c = CHR '' ''"
  shows "punct_to_space (lower_char c) = c"
proof -
  have "\<not> is_upper c" using assms space_not_upper[OF space_is_space]
    by (auto simp: canonical_char_def)
  then have "lower_char c = c" by (rule lower_char_fix)
  moreover have "punct_to_space c = c" using assms
    by (auto simp: punct_to_space_def canonical_char_def space_is_space)
  ultimately show ?thesis by simp
qed

lemma canonical_words_cleaned:
  assumes "w \<in> set (py_split (strip_punct (lower x)))"
  shows "canonical_word w"
proof -
  from py_split_words[OF assms]
  have ne: "w \<noteq> []" and ch: "\<forall>c\<in>set w. \<not> is_space c \<and> c \<in> set (strip_punct (lower x))"
    by auto
  have "canonical_char c" if "c \<in> set w" for c
  proof -
    from ch that obtain c0 where "c = punct_to_space (lower_char c0)" and "\<not> is_space c"
      by (auto simp: strip_punct_def lower_def)
    then show ?thesis using canonical_of_cleaned by simp
  qed
  with ne show ?thesis by (simp add: canonical_word_def list_all_iff)
qed

lemma set_join: "c \<in> set (join ws) \<Longrightarrow> c = CHR '' '' \<or> (\<exists>w\<in>set ws. c \<in> set w)"
  by (induction ws rule: join.induct) auto

lemma canonical_word_no_space:
  "canonical_word w \<Longrightarrow> w \<noteq> [] \<and> (\<forall>c\<in>set w. \<not> is_space c)"
  using word_not_space by (auto simp: canonical_word_def canonical_char_def list_all_iff)

lemma py_split_join_canonical:
  "\<forall>w\<in>set ws. canonical_word w \<Longrightarrow> py_split (join ws) = ws"
  by (rule py_split_join) (use canonical_word_no_space in blast)

lemma cleanup_join_canonical:
  assumes "\<forall>w\<in>set ws. canonical_word w"
  shows "cleanup (join ws) = join ws"
proof -
  have "punct_to_space (lower_char c) = c" if "c \<in> set (join ws)" for c
  proof -
    from set_join[OF that] assms have "canonical_char c \<or> c = CHR '' ''"
      by (auto simp: canonical_word_def list_all_iff)
    then show ?thesis by (rule canonical_char_fixed)
  qed
  then have "strip_punct (lower (join ws)) = join ws"
    by (simp add: strip_punct_def lower_def map_idI)
  then show ?thesis by (simp add: cleanup_alt py_split_join_canonical[OF assms])
qed

lemma cleanup_words_canonical: "\<forall>w\<in>set (py_split (cleanup x)). canonical_word w"
proof -
  have c: "\<forall>w\<in>set (py_split (strip_punct (lower x))). canonical_word w"
    using canonical_words_cleaned by blast
  then show ?thesis by (simp add: cleanup_alt py_split_join_canonical)
qed

lemma normalize_final_words: "normalize_text nz text r = join (normalized_words nz text r)"
  by (simp add: normalize_text_def)

section \<open>Idempotence of normalize\<close>

text \<open>
  Claim C8, as amended. \<^verbatim>\<open>normalize\<close> is not idempotent on every text: a second call looks its
  result up in the two tables, lemmatizes its words and cleans it once more. It is idempotent
  at every text whose result is a key of neither the synonym table nor the plural map and
  whose words (the list the function joins) are canonical and left unchanged by the lemmatizer.
  Nothing is assumed of the lemmatizer or of the tables elsewhere.
\<close>

theorem normalize_idempotent_when_stable:
  assumes words: "list_all (\<lambda>w. canonical_word w \<and> lemmatize nz w = w) (normalized_words nz x r)"
    and nosyn: "synonyms nz (normalize_text nz x r) = None"
    and noplural: "plural_map (normalize_text nz x r) = None"
  shows "normalize_text nz (normalize_text nz x r) r = normalize_text nz x r"
proof -
  let ?ws = "normalized_words nz x r"
  let ?y = "normalize_text nz x r"
  have canon: "\<forall>w\<in>set ?ws. canonical_word w"
    using words by (simp add: list_all_iff)
  have fixed: "\<forall>w\<in>set ?ws. lemmatize nz w = w"
    using words by (simp add: list_all_iff)
  have keep: "r \<Longrightarrow> \<forall>w\<in>set ?ws. w \<notin> stopwords nz"
    by (auto simp: normalized_words_def Let_def)
  have y: "?y = join ?ws" by (rule normalize_final_words)
  have c: "cleanup ?y = ?y" unfolding y by (rule cleanup_join_canonical[OF canon])
  have t: "lookup_or_self plural_map (lookup_or_self (synonyms nz) (cleanup ?y)) = ?y"
    using nosyn noplural by (simp add: c lookup_or_self_def)
  have sp: "py_split ?y = ?ws" unfolding y by (rule py_split_join_canonical[OF canon])
  have m: "map (lemmatize nz) ?ws = ?ws" using fixed by (simp add: map_idI)
  have f: "r \<Longrightarrow> filter (\<lambda>w. w \<notin> stopwords nz) ?ws = ?ws" using keep by simp
  have "normalized_words nz ?y r =
          (let ws = map (lemmatize nz)
             (py_split (lookup_or_self plural_map (lookup_or_self (synonyms nz) (cleanup ?y))))
           in if r then filter (\<lambda>w. w \<notin> stopwords nz) ws else ws)"
    by (simp only: normalized_words_def[of nz ?y r] Let_def)
  also have "\<dots> = (if r then filter (\<lambda>w. w \<notin> stopwords nz) ?ws else ?ws)"
    by (simp only: t sp m Let_def)
  also have "\<dots> = ?ws" using f by simp
  finally have "normalized_words nz ?y r = ?ws" .
  then show ?thesis using normalize_final_words[of nz ?y r] y by simp
qed

text \<open>
  Claim C8 as stated fails, once for each condition of the amended claim. With the synonym
  table \<^verbatim>\<open>{"scallion": "green onion"}\<close> the text \<^verbatim>\<open>fresh scallion\<close> normalizes to the key
  \<^verbatim>\<open>scallion\<close>, and that to \<^verbatim>\<open>green onion\<close>. With an empty table \<^verbatim>\<open>Pass\<close> normalizes to
  \<^verbatim>\<open>pas\<close>, which the lemmatizer changes again, to \<^verbatim>\<open>pa\<close>. With the table
  \<^verbatim>\<open>{"scallion": "Green Onion"}\<close> the text \<^verbatim>\<open>scallion\<close> normalizes to \<^verbatim>\<open>Green Onion\<close>, whose
  capitals the second call lowers.
\<close>

theorem normalize_not_idempotent:
  "normalize_text scallion_normalizer (normalize_text scallion_normalizer ''fresh scallion'' True) True
     \<noteq> normalize_text scallion_normalizer ''fresh scallion'' True
   \<and> normalize_text pass_normalizer (normalize_text pass_normalizer ''Pass'' False) False
     \<noteq> normalize_text pass_normalizer ''Pass'' False
   \<and> normalize_text capital_normalizer (normalize_text capital_normalizer ''scallion'' False) False
     \<noteq> normalize_text capital_normalizer ''scallion'' False"
  by code_simp

text \<open>The amended claim C8 at the text \<^verbatim>\<open>Fresh Tomatoes!\<close>, whose result is \<^verbatim>\<open>tomato\<close>.\<close>

theorem normalize_idempotent_when_stable_witness:
  "list_all (\<lambda>w. canonical_word w \<and> lemmatize scallion_normalizer w = w)
     (normalized_words scallion_normalizer ''Fresh Tomatoes!'' True)
   \<and> synonyms scallion_normalizer (normalize_text scallion_normalizer ''Fresh Tomatoes!'' True) = None
   \<and> plural_map (normalize_text scallion_normalizer ''Fresh Tomatoes!'' True) = None
   \<and> normalize_text scallion_normalizer ''Fresh Tomatoes!'' True = ''tomato''
   \<and> normalize_text scallion_normalizer
        (normalize_text scallion_normalizer ''Fresh Tomatoes!'' True) True = ''tomato''"
proof -
  have words: "list_all (\<lambda>w. canonical_word w \<and> lemmatize scallion_normalizer w = w)
     (normalized_words scallion_normalizer ''Fresh Tomatoes!'' True)"
    by code_simp
  have val: "normalize_text scallion_normalizer ''Fresh Tomatoes!'' True = ''tomato''" by code_simp
  have nosyn: "synonyms scallion_normalizer (normalize_text scallion_normalizer ''Fresh Tomatoes!'' True) = None"
    unfolding val by (simp add: scallion_normalizer_def new_normalizer_def)
  have noplural: "plural_map (normalize_text scallion_normalizer ''Fresh Tomatoes!'' True) = None"
    unfolding val by (simp add: plural_map_def plural_table_def)
  from normalize_idempotent_when_stable[OF words nosyn noplural] words nosyn noplural val
  show ?thesis by simp
qed

section \<open>Query tokens and index tokens\<close>

lemma sub_empty_no_match:
  "\<forall>c\<in>set s. \<not> is_digit c \<Longrightarrow> (\<And>c cs. \<not> is_digit c \<Longrightarrow> m (c # cs) = None)
     \<Longrightarrow> sub_empty m 0 s = s"
  by (induction s) auto

lemma match_quantity_no_digit: "\<not> is_digit c \<Longrightarrow> match_quantity (c # cs) = None"
  by (simp add: match_quantity_def)

lemma match_fraction_no_digit: "\<not> is_digit c \<Longrightarrow> match_fraction (c # cs) = None"
  by (simp add: match_fraction_def)

lemma strip_quantities_no_digit:
  assumes "\<forall>c\<in>set s. \<not> is_digit c"
  shows "strip_quantities s = s"
proof -
  have "sub_quantity s = s"
    unfolding sub_quantity_def using assms match_quantity_no_digit by (rule sub_empty_no_match)
  moreover have "sub_fraction s = s"
    unfolding sub_fraction_def using assms match_fraction_no_digit by (rule sub_empty_no_match)
  moreover have "sub_number s = s" using assms by (simp add: sub_number_def)
  ultimately show ?thesis by (simp add: strip_quantities_def)
qed

lemma split_on_no_sep: "sep \<notin> set s \<Longrightarrow> split_on sep s = [s]"
  by (induction s) auto

lemma set_strip: "set (strip s) \<subseteq> set s"
proof -
  have "set (strip s) \<subseteq> set (dropWhile is_space s)"
    unfolding strip_def using set_dropWhileD[of _ is_space "rev (dropWhile is_space s)"] by auto
  also have "\<dots> \<subseteq> set s" using set_dropWhileD[of _ is_space s] by auto
  finally show ?thesis .
qed

lemma set_dedup: "set (dedup ts seen) = set ts - seen"
  by (induction ts arbitrary: seen) auto

lemma py_split_Nil: "py_split [] = []"
  by (simp add: py_split_def)

lemma tokenize_plain_phrase:
  assumes "\<forall>c\<in>set p. \<not> is_digit c \<and> c \<noteq> CHR '',''"
  shows "tokenize_ingredients nz p =
           (if normalize_text nz p True = [] then [] else [normalize_text nz p True])"
proof -
  have "split_on CHR '','' p = [p]" using assms by (intro split_on_no_sep) auto
  moreover have "strip_quantities (strip p) = strip p"
    using assms set_strip[of p] by (intro strip_quantities_no_digit) auto
  ultimately show ?thesis
    by (simp add: tokenize_ingredients_def Let_def normalize_strip)
qed

text \<open>
  Claim C2, as amended. The query path of \<^verbatim>\<open>search\<close> strips no quantities and splits no
  commas, so the two paths are compared on the phrases where neither applies: for every phrase
  without a digit and without a comma, the token set of the query path is the set of the
  whitespace-separated words of what \<^verbatim>\<open>tokenize_ingredients\<close> returns.
\<close>

theorem query_index_words_agree:
  assumes "list_all (\<lambda>c. \<not> is_digit c \<and> c \<noteq> CHR '','') p"
  shows "set (query_tokens nz [p]) = set (concat (map py_split (tokenize_ingredients nz p)))"
proof -
  from assms have "\<forall>c\<in>set p. \<not> is_digit c \<and> c \<noteq> CHR '',''"
    by (simp add: list_all_iff)
  from tokenize_plain_phrase[OF this, of nz] show ?thesis
    by (simp add: query_tokens_def normalize_list_def set_dedup py_split_Nil)
qed

text \<open>
  Claim C2 as stated fails on \<^verbatim>\<open>2 cups tomatoes\<close>: the query path keeps \<^verbatim>\<open>2\<close> and \<^verbatim>\<open>cup\<close>,
  the indexing path strips them. Both token sets contain \<^verbatim>\<open>tomato\<close>.
\<close>

theorem query_index_token_sets_differ:
  "set (query_tokens plain_normalizer [''2 cups tomatoes''])
     \<noteq> set (tokenize_ingredients plain_normalizer ''2 cups tomatoes'')"
  by code_simp

lemma quantity_phrase_query: "query_tokens plain_normalizer [''2 cups tomatoes''] = [''2'', ''cup'', ''tomato'']"
  by code_simp

lemma quantity_phrase_index: "tokenize_ingredients plain_normalizer ''2 cups tomatoes'' = [''tomato'']"
  by code_simp

text \<open>The amended claim C2 at the phrase \<^verbatim>\<open>Tomatoes\<close>, where both paths give \<^verbatim>\<open>tomato\<close>.\<close>

theorem query_index_words_agree_witness:
  "list_all (\<lambda>c. \<not> is_digit c \<and> c \<noteq> CHR '','') ''Tomatoes''
   \<and> set (query_tokens plain_normalizer [''Tomatoes''])
       = set (concat (map py_split (tokenize_ingredients plain_normalizer ''Tomatoes'')))
   \<and> query_tokens plain_normalizer [''Tomatoes''] = [''tomato'']
   \<and> tokenize_ingredients plain_normalizer ''Tomatoes'' = [''tomato'']"
proof -
  have h: "list_all (\<lambda>c. \<not> is_digit c \<and> c \<noteq> CHR '','') ''Tomatoes''"
    by (simp add: is_digit_def)
  have q: "query_tokens plain_normalizer [''Tomatoes''] = [''tomato'']" by code_simp
  have t: "tokenize_ingredients plain_normalizer ''Tomatoes'' = [''tomato'']" by code_simp
  from query_index_words_agree[OF h, of plain_normalizer] h q t show ?thesis by blast
qed

text \<open>
  Claim C1 says that every element returned by \<^verbatim>\<open>tokenize_ingredients\<close> is a single word.
  The function appends the whole normalized segment: the segment \<^verbatim>\<open>chicken breast\<close> is one
  element with a space in it.
\<close>

theorem tokenize_ingredients_keeps_phrases:
  "tokenize_ingredients plain_normalizer ''chicken breast, 2 cups rice''
     = [''chicken breast'', ''rice'']"
  by code_simp

section \<open>The ranking of search\<close>

lemma insort_key_before_larger:
  fixes f :: "nat \<Rightarrow> real"
  assumes "sorted_wrt (\<lambda>i j. f i < f j \<or> (f i = f j \<and> i < j)) ys"
    and "\<forall>y\<in>set ys. x < y"
  shows "sorted_wrt (\<lambda>i j. f i < f j \<or> (f i = f j \<and> i < j)) (insort_key f x ys)"
  using assms
proof (induction ys)
  case Nil
  then show ?case by simp
next
  case (Cons y ys)
  show ?case
  proof (cases "f x \<le> f y")
    case True
    have "f x < f z \<or> (f x = f z \<and> x < z)" if "z \<in> set (y # ys)" for z
    proof -
      have "f y \<le> f z" using that Cons.prems(1) by auto
      moreover have "x < z" using that Cons.prems(2) by blast
      ultimately show ?thesis using True by auto
    qed
    with True Cons.prems(1) show ?thesis by simp
  next
    case False
    have "sorted_wrt (\<lambda>i j. f i < f j \<or> (f i = f j \<and> i < j)) (insort_key f x ys)"
      using Cons by simp
    moreover have "f y < f z \<or> (f y = f z \<and> y < z)" if "z \<in> set (insort_key f x ys)" for z
      using that False Cons.prems(1) by (auto simp: set_insort_key)
    ultimately show ?thesis using False by simp
  qed
qed

lemma sort_key_stable_order:
  fixes f :: "nat \<Rightarrow> real"
  assumes "sorted_wrt (<) xs"
  shows "sorted_wrt (\<lambda>i j. f i < f j \<or> (f i = f j \<and> i < j)) (sort_key f xs)"
  using assms
proof (induction xs)
  case Nil
  then show ?case by simp
next
  case (Cons x xs)
  then have "sorted_wrt (\<lambda>i j. f i < f j \<or> (f i = f j \<and> i < j)) (sort_key f xs)"
    and "\<forall>y\<in>set (sort_key f xs). x < y"
    by auto
  then show ?case using insort_key_before_larger[of f "sort_key f xs" x] by simp
qed

lemma sorted_wrt_py_take: "sorted_wrt R xs \<Longrightarrow> sorted_wrt R (py_take k xs)"
  by (simp add: py_take_def sorted_wrt_take)

lemma top_indices_sorted:
  "sorted_wrt (\<lambda>i j. scores ! i > scores ! j \<or> (scores ! i = scores ! j \<and> i < j))
     (top_indices scores k)"
proof -
  have "sorted_wrt (<) [0..<length scores]" by (simp add: sorted_wrt_upt)
  from sort_key_stable_order[OF this, of "\<lambda>i. - (scores ! i)"]
  show ?thesis unfolding top_indices_def by (intro sorted_wrt_py_take) simp
qed

lemma set_py_take: "set (py_take k xs) \<subseteq> set xs"
  by (auto simp: py_take_def dest: in_set_takeD)

lemma top_indices_range: "i \<in> set (top_indices scores k) \<Longrightarrow> i < length scores"
  using set_py_take[of k "sort_key (\<lambda>i. - (scores ! i)) [0..<length scores]"]
  by (auto simp: top_indices_def)

lemma length_top_indices:
  "0 \<le> k \<Longrightarrow> length (top_indices scores k) = min (nat k) (length scores)"
  by (simp add: top_indices_def py_take_def)

section \<open>The result loop of search\<close>

lemma copy_with_score:
  "(case model_copy h a of (b, h1) \<Rightarrow> (b, set_score h1 b v))
     = (length h, h @ [(h ! a)\<lparr>score := Some v\<rparr>])"
  by (simp add: model_copy_def set_score_def)

lemma collect_step:
  "i < length rs \<Longrightarrow>
   collect rs scores (i # is) results h =
     collect rs scores is (results @ [length h]) (h @ [(h ! (rs ! i))\<lparr>score := Some (scores ! i)\<rparr>])"
  by (simp add: model_copy_def set_score_def)

lemma collect_extends: "\<exists>ext. snd (collect rs scores is results h) = h @ ext"
proof (induction "is" arbitrary: results h)
  case Nil
  then show ?case by simp
next
  case (Cons i "is")
  show ?case
  proof (cases "i < length rs")
    case True
    let ?r = "(h ! (rs ! i))\<lparr>score := Some (scores ! i)\<rparr>"
    from Cons[of "results @ [length h]" "h @ [?r]"]
    obtain ext where "snd (collect rs scores is (results @ [length h]) (h @ [?r])) = (h @ [?r]) @ ext"
      by blast
    then have "snd (collect rs scores (i # is) results h) = h @ (?r # ext)"
      by (simp only: collect_step[OF True] append_assoc append_Cons append_Nil)
    then show ?thesis by blast
  next
    case False
    then show ?thesis by simp
  qed
qed

lemma collect_in_range:
  assumes "\<forall>i\<in>set is. i < length rs" and "\<forall>a\<in>set rs. a < length h"
  shows "collect rs scores is results h =
           (Inr (results @ [length h..<length h + length is]),
            h @ map (\<lambda>i. (h ! (rs ! i))\<lparr>score := Some (scores ! i)\<rparr>) is)"
  using assms
proof (induction "is" arbitrary: results h)
  case Nil
  then show ?case by simp
next
  case (Cons i "is")
  let ?h = "h @ [(h ! (rs ! i))\<lparr>score := Some (scores ! i)\<rparr>]"
  have i: "i < length rs" using Cons.prems(1) by simp
  have old: "?h ! (rs ! j) = h ! (rs ! j)" if "j < length rs" for j
    using that Cons.prems(2) by (simp add: nth_append)
  have ih: "collect rs scores is (results @ [length h]) ?h =
          (Inr ((results @ [length h]) @ [length ?h..<length ?h + length is]),
           ?h @ map (\<lambda>i. (?h ! (rs ! i))\<lparr>score := Some (scores ! i)\<rparr>) is)"
    using Cons.prems by (intro Cons.IH) (auto simp: less_Suc_eq)
  have m: "map (\<lambda>i. (?h ! (rs ! i))\<lparr>score := Some (scores ! i)\<rparr>) is
               = map (\<lambda>i. (h ! (rs ! i))\<lparr>score := Some (scores ! i)\<rparr>) is"
    using Cons.prems(1) old by (intro map_cong) auto
  have u: "[length h..<length h + length (i # is)] = length h # [length ?h..<length ?h + length is]"
    by (subst upt_rec) simp
  have "collect rs scores (i # is) results h = collect rs scores is (results @ [length h]) ?h"
    by (rule collect_step[OF i])
  also have "\<dots> = (Inr ((results @ [length h]) @ [length ?h..<length ?h + length is]),
           ?h @ map (\<lambda>i. (h ! (rs ! i))\<lparr>score := Some (scores ! i)\<rparr>) is)"
    by (simp only: ih m)
  also have "\<dots> = (Inr (results @ [length h..<length h + length (i # is)]),
            h @ map (\<lambda>i. (h ! (rs ! i))\<lparr>score := Some (scores ! i)\<rparr>) (i # is))"
    by (simp only: u append_assoc append_Cons append_Nil list.map)
  finally show ?case .
qed

lemma search_extends: "\<exists>ext. snd (search ix h ings k) = h @ ext"
  using collect_extends by (auto simp: search_def Let_def split: option.splits)

lemma searches_extends: "\<exists>ext. searches ix h qs = h @ ext"
proof (induction qs arbitrary: h)
  case Nil
  then show ?case by simp
next
  case (Cons q qs)
  obtain ings k where q: "q = (ings, k)" by (cases q)
  obtain e1 where e1: "snd (search ix h ings k) = h @ e1" using search_extends by blast
  obtain e2 where "searches ix (h @ e1) qs = (h @ e1) @ e2" using Cons by blast
  then show ?case by (simp add: q e1)
qed

section \<open>Loading and building\<close>

lemma parse_row_score: "parse_row row = Inr r \<Longrightarrow> score r = None"
  by (auto simp: parse_row_def then_do_def split: sum.splits)

lemma accepted_score: "r \<in> set (accepted rows) \<Longrightarrow> score r = None"
  by (induction rows) (auto simp: parse_row_score split: sum.splits)

lemma load_rows_accepted:
  "load_rows rows rs h lg = Inr (rs', h', lg') \<Longrightarrow>
     h' = h @ accepted rows \<and> rs' = rs @ [length h..<length h + length (accepted rows)]"
proof (induction rows arbitrary: rs h lg)
  case Nil
  then show ?case by simp
next
  case (Cons row rows)
  show ?case
  proof (cases "parse_row row")
    case (Inl e)
    with Cons.prems have "load_rows rows rs h (lg @ [SkippedRow e]) = Inr (rs', h', lg')"
      by (simp split: if_splits)
    from Cons.IH[OF this] Inl show ?thesis by simp
  next
    case (Inr r)
    with Cons.prems have "load_rows rows (rs @ [length h]) (h @ [r]) lg = Inr (rs', h', lg')"
      by simp
    from Cons.IH[OF this]
    have h': "h' = (h @ [r]) @ accepted rows"
      and rs': "rs' = (rs @ [length h]) @ [length (h @ [r])..<length (h @ [r]) + length (accepted rows)]"
      by auto
    have "[length h..<length h + length (r # accepted rows)]
            = length h # [length (h @ [r])..<length (h @ [r]) + length (accepted rows)]"
      by (subst upt_rec) simp
    with h' rs' Inr show ?thesis
      by (simp only: accepted.simps sum.case append_assoc append_Cons append_Nil)
  qed
qed

lemma new_indexer_built:
  assumes "new_indexer lib nz source h0 = Inr (ix, h, lg)"
  shows "\<exists>rows bm. source = Some rows \<and> h = h0 @ accepted rows
           \<and> recipes ix = [length h0..<length h0 + length (accepted rows)]
           \<and> normalizer ix = nz \<and> bm25 ix = Some bm
           \<and> lib (tokenized_corpus ix) = Inr bm
           \<and> length (tokenized_corpus ix) = length (recipes ix)"
proof -
  from assms obtain rows where src: "source = Some rows"
    by (cases source) (auto simp: new_indexer_def load_recipes_def)
  from assms src obtain rs lg1 where ld: "load_rows rows [] h0 [] = Inr (rs, h, lg1)"
    by (auto simp: new_indexer_def load_recipes_def Let_def split: sum.splits prod.splits)
  from load_rows_accepted[OF ld]
  have h: "h = h0 @ accepted rows" and rs: "rs = [length h0..<length h0 + length (accepted rows)]"
    by auto
  from assms src ld obtain bm where
    "lib (map (\<lambda>a. recipe_tokens nz (h ! a)) rs) = Inr bm"
    "ix = \<lparr>normalizer = nz, recipes = rs, bm25 = Some bm,
           tokenized_corpus = map (\<lambda>a. recipe_tokens nz (h ! a)) rs\<rparr>"
    by (auto simp: new_indexer_def load_recipes_def Let_def split: sum.splits)
  with src h rs show ?thesis by auto
qed

lemma searches_keeps:
  assumes "a < length h"
  shows "searches ix h qs ! a = h ! a" and "a < length (searches ix h qs)"
proof -
  obtain ext where "searches ix h qs = h @ ext" using searches_extends by blast
  with assms show "searches ix h qs ! a = h ! a" and "a < length (searches ix h qs)"
    by (simp_all add: nth_append)
qed

lemma get_recipe_by_id_cong:
  "\<forall>a\<in>set rs. h' ! a = h ! a \<Longrightarrow> get_recipe_by_id h' rs i = get_recipe_by_id h rs i"
  by (induction rs) auto

lemma get_recipe_by_id_Some:
  "get_recipe_by_id h rs i = Some a \<Longrightarrow> a \<in> set rs \<and> rid (h ! a) = i"
  by (induction rs) (auto split: if_splits)

lemma get_recipe_by_id_None:
  "get_recipe_by_id h rs i = None \<longleftrightarrow> i \<notin> (\<lambda>a. rid (h ! a)) ` set rs"
  by (induction rs) auto

lemma get_recipe_by_id_find:
  "get_recipe_by_id h rs i = find (\<lambda>a. rid (h ! a) = i) rs"
  by (induction rs) auto

lemma search_result:
  assumes bm: "bm25 ix = Some bm"
    and len: "length (bm (query_tokens (normalizer ix) ings)) = length (recipes ix)"
    and valid: "\<forall>a\<in>set (recipes ix). a < length h"
    and tokens: "query_tokens (normalizer ix) ings \<noteq> []"
  shows "search ix h ings k =
           (Inr [length h..<length h + length (top_indices (bm (query_tokens (normalizer ix) ings)) k)],
            h @ map (\<lambda>i. (h ! (recipes ix ! i))\<lparr>score := Some (bm (query_tokens (normalizer ix) ings) ! i)\<rparr>)
                  (top_indices (bm (query_tokens (normalizer ix) ings)) k))"
proof -
  let ?sc = "bm (query_tokens (normalizer ix) ings)"
  have "\<forall>i\<in>set (top_indices ?sc k). i < length (recipes ix)"
    using top_indices_range[of _ ?sc k] len by auto
  from collect_in_range[OF this valid, of ?sc "[]"] bm tokens
  show ?thesis by (simp add: search_def Let_def)
qed

section \<open>The results of search\<close>

lemma built_valid:
  assumes "new_indexer lib nz source h0 = Inr (ix, h, lg)"
  shows "\<forall>a\<in>set (recipes ix). a < length h \<and> score (h ! a) = None"
proof -
  from new_indexer_built[OF assms] obtain rows where
    h: "h = h0 @ accepted rows" and rs: "recipes ix = [length h0..<length h0 + length (accepted rows)]"
    by blast
  have "score (h ! a) = None" if "a \<in> set (recipes ix)" for a
  proof -
    from that rs have "length h0 \<le> a" "a - length h0 < length (accepted rows)" by auto
    then have "h ! a = accepted rows ! (a - length h0)" "accepted rows ! (a - length h0) \<in> set (accepted rows)"
      by (simp_all add: h nth_append)
    then show ?thesis using accepted_score by simp
  qed
  moreover have "a < length h" if "a \<in> set (recipes ix)" for a
    using that rs h by auto
  ultimately show ?thesis by blast
qed

lemma built_scores_length:
  assumes "new_indexer lib nz source h0 = Inr (ix, h, lg)"
    and "\<forall>corpus bm q. lib corpus = Inr bm \<longrightarrow> length (bm q) = length corpus"
    and "bm25 ix = Some bm"
  shows "length (bm q) = length (recipes ix)"
  using new_indexer_built[OF assms(1)] assms(2,3) by fastforce

text \<open>
  Claim C4. On a built index, whatever searches came before, a search with a non-empty token
  set returns fresh objects: the \<open>j\<close>-th is the stored recipe at the corpus position
  \<open>top ! j\<close> with the score of that position. The positions \<open>top\<close> are in the order of
  non-increasing score, and positions of equal score are in corpus order.
\<close>

theorem search_sorted_by_score:
  assumes built: "new_indexer lib nz source h0 = Inr (ix, h, lg)"
    and contract: "\<forall>corpus bm q. lib corpus = Inr bm \<longrightarrow> length (bm q) = length corpus"
    and tokens: "query_tokens nz ings \<noteq> []"
  shows "\<exists>bm. bm25 ix = Some bm \<and>
           (let sc = bm (query_tokens nz ings); top = top_indices sc k; h' = searches ix h qs
            in search ix h' ings k =
                 (Inr [length h'..<length h' + length top],
                  h' @ map (\<lambda>i. (h ! (recipes ix ! i))\<lparr>score := Some (sc ! i)\<rparr>) top)
               \<and> sorted_wrt (\<lambda>i j. sc ! j < sc ! i \<or> (sc ! i = sc ! j \<and> i < j)) top)"
proof -
  from new_indexer_built[OF built] obtain bm where bm: "bm25 ix = Some bm" and nz: "normalizer ix = nz"
    by blast
  let ?sc = "bm (query_tokens nz ings)"
  let ?top = "top_indices ?sc k"
  let ?h' = "searches ix h qs"
  have len: "length ?sc = length (recipes ix)"
    by (rule built_scores_length[OF built contract bm])
  have valid: "\<forall>a\<in>set (recipes ix). a < length ?h'"
    using built_valid[OF built] searches_keeps(2) by blast
  have same: "?h' ! (recipes ix ! i) = h ! (recipes ix ! i)" if "i \<in> set ?top" for i
  proof -
    from that have "i < length (recipes ix)" using top_indices_range[of i ?sc k] len by simp
    then have "recipes ix ! i < length h" using built_valid[OF built] by simp
    then show ?thesis by (rule searches_keeps(1))
  qed
  have "search ix ?h' ings k =
          (Inr [length ?h'..<length ?h' + length ?top],
           ?h' @ map (\<lambda>i. (?h' ! (recipes ix ! i))\<lparr>score := Some (?sc ! i)\<rparr>) ?top)"
    using search_result[OF bm _ valid, of ings k] len tokens by (simp add: nz)
  moreover have "map (\<lambda>i. (?h' ! (recipes ix ! i))\<lparr>score := Some (?sc ! i)\<rparr>) ?top
               = map (\<lambda>i. (h ! (recipes ix ! i))\<lparr>score := Some (?sc ! i)\<rparr>) ?top"
    using same by (intro map_cong) auto
  ultimately have "search ix ?h' ings k =
          (Inr [length ?h'..<length ?h' + length ?top],
           ?h' @ map (\<lambda>i. (h ! (recipes ix ! i))\<lparr>score := Some (?sc ! i)\<rparr>) ?top)"
    by simp
  moreover have "sorted_wrt (\<lambda>i j. ?sc ! j < ?sc ! i \<or> (?sc ! i = ?sc ! j \<and> i < j)) ?top"
    by (rule top_indices_sorted)
  ultimately show ?thesis using bm by (simp add: Let_def)
qed

text \<open>
  Claim C5. For \<open>k \<ge> 0\<close> a search returns at most \<open>k\<close> recipes, and exactly
  \<open>min k n\<close> of a corpus of \<open>n\<close> recipes whenever the token set is not empty, whether or
  not the documents share a token with the query.
\<close>

theorem search_top_k:
  assumes built: "new_indexer lib nz source h0 = Inr (ix, h, lg)"
    and contract: "\<forall>corpus bm q. lib corpus = Inr bm \<longrightarrow> length (bm q) = length corpus"
    and k: "0 \<le> k"
  shows "\<exists>res h''. search ix (searches ix h qs) ings k = (Inr res, h'')
           \<and> int (length res) \<le> k
           \<and> (query_tokens nz ings \<noteq> [] \<longrightarrow> length res = min (nat k) (get_recipe_count ix))"
proof (cases "query_tokens nz ings = []")
  case True
  from new_indexer_built[OF built] have "normalizer ix = nz" by blast
  with True have "search ix (searches ix h qs) ings k = (Inr [], searches ix h qs)"
    by (simp add: search_def split: option.splits)
  with True k show ?thesis by simp
next
  case False
  from new_indexer_built[OF built] obtain bm where bm: "bm25 ix = Some bm"
    and nz: "normalizer ix = nz"
    by blast
  have valid: "\<forall>a\<in>set (recipes ix). a < length (searches ix h qs)"
    using built_valid[OF built] searches_keeps(2) by blast
  have len: "length (bm (query_tokens (normalizer ix) ings)) = length (recipes ix)"
    by (rule built_scores_length[OF built contract bm])
  from search_result[OF bm len valid, of k] False
  have s: "search ix (searches ix h qs) ings k =
       (Inr [length (searches ix h qs)..<length (searches ix h qs) + length (top_indices (bm (query_tokens nz ings)) k)],
        searches ix h qs @ map (\<lambda>i. (searches ix h qs ! (recipes ix ! i))\<lparr>score := Some (bm (query_tokens nz ings) ! i)\<rparr>)
           (top_indices (bm (query_tokens nz ings)) k))"
    by (simp add: nz)
  have "length (top_indices (bm (query_tokens nz ings)) k) = min (nat k) (length (recipes ix))"
    using length_top_indices[OF k] built_scores_length[OF built contract bm] by simp
  with s k show ?thesis by (simp add: get_recipe_count_def)
qed

section \<open>The stored corpus\<close>

lemma collect_Inr_range:
  "collect rs scores is results h = (Inr res, h'') \<Longrightarrow> \<forall>i\<in>set is. i < length rs"
proof (induction "is" arbitrary: results h)
  case Nil
  then show ?case by simp
next
  case (Cons i "is")
  then have i: "i < length rs" by (auto split: if_splits)
  with Cons.prems have "collect rs scores is (results @ [length h])
      (h @ [(h ! (rs ! i))\<lparr>score := Some (scores ! i)\<rparr>]) = (Inr res, h'')"
    by (simp only: collect_step[OF i])
  from Cons.IH[OF this] i show ?case by simp
qed

lemma search_copies:
  assumes valid: "\<forall>a\<in>set (recipes ix). a < length h"
    and res: "search ix h ings k = (Inr res, h'')"
  shows "\<forall>a\<in>set res. a \<notin> set (recipes ix)
           \<and> (\<exists>b\<in>set (recipes ix). \<exists>s. h'' ! a = (h ! b)\<lparr>score := Some s\<rparr>)"
proof (cases "bm25 ix")
  case None
  with res show ?thesis by (simp add: search_def)
next
  case (Some bm)
  let ?qt = "query_tokens (normalizer ix) ings"
  show ?thesis
  proof (cases "?qt = []")
    case True
    with res Some show ?thesis by (simp add: search_def)
  next
    case False
    let ?sc = "bm ?qt"
    let ?top = "top_indices ?sc k"
    from res Some False have c: "collect (recipes ix) ?sc ?top [] h = (Inr res, h'')"
      by (simp add: search_def Let_def)
    from collect_Inr_range[OF c] have range: "\<forall>i\<in>set ?top. i < length (recipes ix)" .
    from collect_in_range[OF range valid, of ?sc "[]"] c
    have r: "res = [length h..<length h + length ?top]"
      and h'': "h'' = h @ map (\<lambda>i. (h ! (recipes ix ! i))\<lparr>score := Some (?sc ! i)\<rparr>) ?top"
      by auto
    show ?thesis
    proof
      fix a assume "a \<in> set res"
      with r have a: "length h \<le> a" "a - length h < length ?top" by auto
      let ?i = "?top ! (a - length h)"
      have "?i \<in> set ?top" using a by simp
      with range have i: "?i < length (recipes ix)" by blast
      have "h'' ! a = (h ! (recipes ix ! ?i))\<lparr>score := Some (?sc ! ?i)\<rparr>"
        using a by (simp add: h'' nth_append)
      moreover have "recipes ix ! ?i \<in> set (recipes ix)" using i by simp
      moreover have "a \<notin> set (recipes ix)" using a(1) valid by auto
      ultimately show "a \<notin> set (recipes ix)
           \<and> (\<exists>b\<in>set (recipes ix). \<exists>s. h'' ! a = (h ! b)\<lparr>score := Some s\<rparr>)"
        by blast
    qed
  qed
qed

text \<open>
  Claim C9. After any sequence of searches on a built index every stored recipe is the object
  it was, with no score; lookup by id gives what it gave before the searches: a stored recipe
  with that id and no score, or nothing when no stored recipe has the id; and every result of
  a search is a new object, equal to a stored recipe but for its score.
\<close>

theorem search_frame:
  assumes built: "new_indexer lib nz source h0 = Inr (ix, h, lg)"
  shows "(\<forall>a\<in>set (recipes ix). searches ix h qs ! a = h ! a \<and> score (h ! a) = None)
       \<and> get_recipe_by_id (searches ix h qs) (recipes ix) i = get_recipe_by_id h (recipes ix) i
       \<and> (case get_recipe_by_id (searches ix h qs) (recipes ix) i of
            None \<Rightarrow> i \<notin> set (loaded_ids ix h)
          | Some a \<Rightarrow> a \<in> set (recipes ix) \<and> rid (searches ix h qs ! a) = i
                      \<and> score (searches ix h qs ! a) = None)
       \<and> (\<forall>ings k res h''. search ix (searches ix h qs) ings k = (Inr res, h'') \<longrightarrow>
            (\<forall>a\<in>set res. a \<notin> set (recipes ix)
               \<and> (\<exists>b\<in>set (recipes ix). \<exists>s. h'' ! a = (h ! b)\<lparr>score := Some s\<rparr>)))"
proof -
  let ?h' = "searches ix h qs"
  have v: "\<forall>a\<in>set (recipes ix). a < length h \<and> score (h ! a) = None"
    by (rule built_valid[OF built])
  have keep: "\<forall>a\<in>set (recipes ix). ?h' ! a = h ! a"
    using v searches_keeps(1) by blast
  have valid': "\<forall>a\<in>set (recipes ix). a < length ?h'"
    using v searches_keeps(2) by blast
  have 1: "\<forall>a\<in>set (recipes ix). ?h' ! a = h ! a \<and> score (h ! a) = None"
    using keep v by blast
  have 2: "get_recipe_by_id ?h' (recipes ix) i = get_recipe_by_id h (recipes ix) i"
    using keep by (rule get_recipe_by_id_cong)
  have 3: "(case get_recipe_by_id ?h' (recipes ix) i of
            None \<Rightarrow> i \<notin> set (loaded_ids ix h)
          | Some a \<Rightarrow> a \<in> set (recipes ix) \<and> rid (?h' ! a) = i \<and> score (?h' ! a) = None)"
  proof (cases "get_recipe_by_id ?h' (recipes ix) i")
    case None
    with 2 have "get_recipe_by_id h (recipes ix) i = None" by simp
    then have "i \<notin> set (loaded_ids ix h)"
      by (simp add: get_recipe_by_id_None loaded_ids_def)
    with None show ?thesis by simp
  next
    case (Some a)
    from get_recipe_by_id_Some[OF Some] have "a \<in> set (recipes ix)" "rid (?h' ! a) = i" by auto
    with 1 Some show ?thesis by simp
  qed
  have 4: "\<forall>ings k res h''. search ix ?h' ings k = (Inr res, h'') \<longrightarrow>
            (\<forall>a\<in>set res. a \<notin> set (recipes ix)
               \<and> (\<exists>b\<in>set (recipes ix). \<exists>s. h'' ! a = (h ! b)\<lparr>score := Some s\<rparr>))"
  proof (intro allI impI)
    fix ings k res h''
    assume "search ix ?h' ings k = (Inr res, h'')"
    from search_copies[OF valid' this] keep
    show "\<forall>a\<in>set res. a \<notin> set (recipes ix)
               \<and> (\<exists>b\<in>set (recipes ix). \<exists>s. h'' ! a = (h ! b)\<lparr>score := Some s\<rparr>)"
      by fastforce
  qed
  from 1 2 3 4 show ?thesis by blast
qed

text \<open>
  Claim C10, as amended. The build does not compare ids: the loaded collection has the ids of
  the accepted rows, in the order of the rows, so its ids are pairwise distinct exactly when
  theirs are; and lookup by id returns the first recipe, in corpus order, with that id.
\<close>

theorem loaded_ids_from_rows:
  assumes built: "new_indexer lib nz (Some rows) h0 = Inr (ix, h, lg)"
  shows "loaded_ids ix h = map rid (accepted rows)
       \<and> (distinct (loaded_ids ix h) \<longleftrightarrow> distinct (map rid (accepted rows)))
       \<and> get_recipe_by_id h (recipes ix) i = find (\<lambda>a. rid (h ! a) = i) (recipes ix)"
proof -
  from new_indexer_built[OF built]
  have h: "h = h0 @ accepted rows"
    and rs: "recipes ix = [length h0..<length h0 + length (accepted rows)]"
    by auto
  have "map (\<lambda>a. h ! a) [length h0..<length h0 + length (accepted rows)] = accepted rows"
    unfolding h by (intro nth_equalityI) (auto simp: nth_append)
  then have "map (\<lambda>a. rid (h ! a)) [length h0..<length h0 + length (accepted rows)]
               = map rid (accepted rows)"
    using map_map[of rid "\<lambda>a. h ! a"] by (metis (no_types, lifting) comp_apply map_eq_conv)
  then have "loaded_ids ix h = map rid (accepted rows)"
    by (simp add: loaded_ids_def rs)
  then show ?thesis by (simp add: get_recipe_by_id_find)
qed

text \<open>
  Claim C6 says that one malformed record among valid ones is skipped. A line with fewer cells
  than the header is not: its \<^verbatim>\<open>ingredients\<close> cell is \<^verbatim>\<open>None\<close>, the AttributeError of
  \<^verbatim>\<open>None.split\<close> is not among the exceptions the loop catches, and with any library and any
  normalizer the construction of the index fails.
\<close>

theorem short_row_is_fatal:
  "load_recipes (Some [chicken_rice, short_row]) [] = Inl AttributeError
   \<and> new_indexer lib nz (Some [chicken_rice, short_row]) [] = Inl AttributeError"
proof -
  have "load_recipes (Some [chicken_rice, short_row]) [] = Inl AttributeError" by code_simp
  then show ?thesis by (simp add: new_indexer_def)
qed

text \<open>A row whose id is not a number is skipped, with one warning.\<close>

lemma bad_id_row_is_skipped:
  "load_recipes (Some [chicken_rice, full_row ''x7'' ''Stew'' ''beef'']) []
     = Inr ([0], accepted [chicken_rice], [SkippedRow ValueError, Loaded 1])"
  by code_simp

text \<open>
  Claim C7 says that the construction from a source without valid records succeeds. The code
  hands the empty corpus to the constructor of the library without a guard: the construction
  succeeds exactly when that constructor does on the empty corpus.
\<close>

theorem empty_corpus_goes_to_library:
  "new_indexer lib nz (Some []) h =
     (case lib [] of
        Inl e \<Rightarrow> Inl e
      | Inr bm \<Rightarrow>
          Inr (\<lparr>normalizer = nz, recipes = [], bm25 = Some bm, tokenized_corpus = []\<rparr>,
               h, [Loaded 0, Built 0]))"
  by (simp add: new_indexer_def load_recipes_def split: sum.splits)

section \<open>Scores of the package\<close>

lemma rice_loaded:
  "load_recipes (Some rice_rows) [] = Inr ([0, 1, 2], accepted rice_rows, [Loaded 3])"
  by code_simp

lemma rice_corpus:
  "map (\<lambda>a. recipe_tokens plain_normalizer (accepted rice_rows ! a)) [0, 1, 2]
     = [[''rice'', ''rice''], [''rice'', ''rice''], [''rice'', ''rice'']]"
  by code_simp

lemma rice_query: "query_tokens plain_normalizer [''rice''] = [''rice'']"
  by code_simp

lemma rice_raw_idf:
  "raw_idf [[''rice'', ''rice''], [''rice'', ''rice''], [''rice'', ''rice'']] ''rice''
     = ln (1 / 2) - ln (7 / 2)"
  by (simp add: raw_idf_def doc_count_def)

lemma rice_raw_idf_negative: "ln (1 / 2) - ln (7 / 2) < (0::real)"
proof -
  have "ln (1 / 2 :: real) < ln (7 / 2)" by (subst ln_less_cancel_iff) simp_all
  then show ?thesis by simp
qed

lemma rice_idf:
  "idf [[''rice'', ''rice''], [''rice'', ''rice''], [''rice'', ''rice'']] ''rice''
     = 1 / 4 * (ln (1 / 2) - ln (7 / 2))"
  using rice_raw_idf_negative
  by (simp add: idf_def rice_raw_idf average_idf_def vocabulary_def okapi_epsilon_def)

lemma rice_term:
  "okapi_term [[''rice'', ''rice''], [''rice'', ''rice''], [''rice'', ''rice'']] ''rice''
     [''rice'', ''rice''] = 5 / 14 * (ln (1 / 2) - ln (7 / 2))"
  by (simp add: okapi_term_def rice_idf vocabulary_def term_freq_def avgdl_def okapi_k1_def
      okapi_b_def)

lemma rice_scores:
  "get_scores [[''rice'', ''rice''], [''rice'', ''rice''], [''rice'', ''rice'']] [''rice'']
     = replicate 3 (5 / 14 * (ln (1 / 2) - ln (7 / 2)))"
  by (simp add: get_scores_def rice_term numeral_3_eq_3)

lemma rice_score_negative: "5 / 14 * (ln (1 / 2) - ln (7 / 2)) < (0::real)"
  using rice_raw_idf_negative by (simp add: mult_less_0_iff)

lemma rank_bm25_okapi_contract:
  "\<forall>corpus bm q. rank_bm25_okapi corpus = Inr bm \<longrightarrow> length (bm q) = length corpus"
  by (auto simp: rank_bm25_okapi_def get_scores_def split: if_splits)

lemma rice_constructed:
  "rank_bm25_okapi [[''rice'', ''rice''], [''rice'', ''rice''], [''rice'', ''rice'']]
     = Inr (get_scores [[''rice'', ''rice''], [''rice'', ''rice''], [''rice'', ''rice'']])"
  by (simp add: rank_bm25_okapi_def vocabulary_def)

lemma rice_built:
  "\<exists>ix lg. new_indexer rank_bm25_okapi plain_normalizer (Some rice_rows) []
              = Inr (ix, accepted rice_rows, lg)
        \<and> recipes ix = [0, 1, 2] \<and> normalizer ix = plain_normalizer
        \<and> bm25 ix = Some (get_scores [[''rice'', ''rice''], [''rice'', ''rice''], [''rice'', ''rice'']])"
proof -
  let ?corpus = "[[''rice'', ''rice''], [''rice'', ''rice''], [''rice'', ''rice'']]"
  have "new_indexer rank_bm25_okapi plain_normalizer (Some rice_rows) [] =
          Inr (\<lparr>normalizer = plain_normalizer, recipes = [0, 1, 2],
                bm25 = Some (get_scores ?corpus), tokenized_corpus = ?corpus\<rparr>,
               accepted rice_rows, [Loaded 3] @ [Built (length ?corpus)])"
    by (simp only: new_indexer_def rice_loaded rice_corpus rice_constructed Let_def
        sum.case prod.case)
  then show ?thesis by simp
qed

text \<open>
  Claim C3 says that every score that a search attaches is non-negative. On the index of three
  recipes for the same dish the word \<^verbatim>\<open>rice\<close> is in every document: its weight is negative,
  the floor \<^verbatim>\<open>epsilon * average_idf\<close> is negative as well, and the search for \<^verbatim>\<open>rice\<close>
  returns the three recipes with the score \<open>5 / 14 * (ln (1 / 2) - ln (7 / 2))\<close>, about
  \<open>-0.695\<close>.
\<close>

theorem matching_recipes_score_negative:
  "\<exists>ix h lg res h'.
      new_indexer rank_bm25_okapi plain_normalizer (Some rice_rows) [] = Inr (ix, h, lg)
    \<and> search ix h [''rice''] 3 = (Inr res, h')
    \<and> length res = 3
    \<and> list_all (\<lambda>a. score (h' ! a) = Some (5 / 14 * (ln (1 / 2) - ln (7 / 2)))) res
    \<and> 5 / 14 * (ln (1 / 2) - ln (7 / 2)) < (0::real)"
proof -
  let ?corpus = "[[''rice'', ''rice''], [''rice'', ''rice''], [''rice'', ''rice'']]"
  let ?s = "5 / 14 * (ln (1 / 2) - ln (7 / 2)) :: real"
  let ?h = "accepted rice_rows"
  from rice_built obtain ix lg where
    built: "new_indexer rank_bm25_okapi plain_normalizer (Some rice_rows) [] = Inr (ix, ?h, lg)"
    and rs: "recipes ix = [0, 1, 2]" and nz: "normalizer ix = plain_normalizer"
    and bm: "bm25 ix = Some (get_scores ?corpus)"
    by blast
  let ?sc = "get_scores ?corpus (query_tokens (normalizer ix) [''rice''])"
  let ?top = "top_indices ?sc 3"
  have sc: "?sc = replicate 3 ?s" by (simp only: nz rice_query rice_scores)
  have len: "length ?sc = length (recipes ix)" by (simp add: sc rs)
  have valid: "\<forall>a\<in>set (recipes ix). a < length ?h"
    using built_valid[OF built] by blast
  have tokens: "query_tokens (normalizer ix) [''rice''] \<noteq> []" by (simp add: nz rice_query)
  have s: "search ix ?h [''rice''] 3 =
      (Inr [length ?h..<length ?h + length ?top],
       ?h @ map (\<lambda>i. (?h ! (recipes ix ! i))\<lparr>score := Some (?sc ! i)\<rparr>) ?top)"
    by (rule search_result[OF bm len valid tokens])
  let ?res = "[length ?h..<length ?h + length ?top]"
  let ?h' = "?h @ map (\<lambda>i. (?h ! (recipes ix ! i))\<lparr>score := Some (?sc ! i)\<rparr>) ?top"
  have ltop: "length ?top = 3" using length_top_indices[of 3 ?sc] by (simp add: sc)
  have "score (?h' ! a) = Some ?s" if "a \<in> set ?res" for a
  proof -
    from that have a: "length ?h \<le> a" "a - length ?h < length ?top" by auto
    let ?i = "?top ! (a - length ?h)"
    have "?i \<in> set ?top" using a by simp
    then have "?i < length ?sc" by (rule top_indices_range)
    then have "?sc ! ?i = ?s" by (simp add: sc)
    moreover have "?h' ! a = (?h ! (recipes ix ! ?i))\<lparr>score := Some (?sc ! ?i)\<rparr>"
      using a by (simp add: nth_append)
    ultimately show ?thesis by simp
  qed
  then have "list_all (\<lambda>a. score (?h' ! a) = Some ?s) ?res"
    by (simp add: list_all_iff)
  with built s ltop rice_score_negative show ?thesis
    by (intro exI[of _ ix] exI[of _ ?h] exI[of _ lg] exI[of _ ?res] exI[of _ ?h']) simp
qed

text \<open>The constructor of the package on the empty corpus.\<close>

lemma rank_bm25_okapi_empty:
  "new_indexer rank_bm25_okapi nz (Some []) h = Inl ZeroDivisionError"
  by (simp add: new_indexer_def load_recipes_def rank_bm25_okapi_def)

section \<open>The claims on a concrete index\<close>

lemma two_recipes_loaded:
  "load_recipes (Some two_recipes) [] = Inr ([0, 1], accepted two_recipes, [Loaded 2])"
  by code_simp

lemma two_recipes_built:
  "\<exists>ix lg. new_indexer overlap_scores plain_normalizer (Some two_recipes) []
              = Inr (ix, accepted two_recipes, lg) \<and> recipes ix = [0, 1]"
  by (simp add: new_indexer_def two_recipes_loaded overlap_scores_def)

lemma overlap_scores_contract:
  "\<forall>corpus bm q. overlap_scores corpus = Inr bm \<longrightarrow> length (bm q) = length corpus"
  by (auto simp: overlap_scores_def)

lemma pasta_tokens: "query_tokens plain_normalizer [''pasta''] \<noteq> []"
  by code_simp

text \<open>Claim C4 on the index of the two recipes, with the query \<^verbatim>\<open>pasta\<close>.\<close>

theorem search_sorted_by_score_witness:
  "\<exists>ix h lg. new_indexer overlap_scores plain_normalizer (Some two_recipes) [] = Inr (ix, h, lg)
     \<and> query_tokens plain_normalizer [''pasta''] \<noteq> []
     \<and> (\<exists>bm. bm25 ix = Some bm \<and>
           (let sc = bm (query_tokens plain_normalizer [''pasta'']); top = top_indices sc 5;
                h' = searches ix h []
            in search ix h' [''pasta''] 5 =
                 (Inr [length h'..<length h' + length top],
                  h' @ map (\<lambda>i. (h ! (recipes ix ! i))\<lparr>score := Some (sc ! i)\<rparr>) top)
               \<and> sorted_wrt (\<lambda>i j. sc ! j < sc ! i \<or> (sc ! i = sc ! j \<and> i < j)) top))"
proof -
  from two_recipes_built obtain ix lg where
    built: "new_indexer overlap_scores plain_normalizer (Some two_recipes) []
              = Inr (ix, accepted two_recipes, lg)"
    by blast
  from search_sorted_by_score[OF built overlap_scores_contract pasta_tokens, of 5 "[]"]
    built pasta_tokens
  show ?thesis by blast
qed

text \<open>Claim C5 on the index of the two recipes, with \<open>k = 1\<close>.\<close>

theorem search_top_k_witness:
  "\<exists>ix h lg. new_indexer overlap_scores plain_normalizer (Some two_recipes) [] = Inr (ix, h, lg)
     \<and> (0::int) \<le> 1
     \<and> query_tokens plain_normalizer [''pasta''] \<noteq> []
     \<and> (\<exists>res h''. search ix (searches ix h []) [''pasta''] 1 = (Inr res, h'')
           \<and> length res = 1 \<and> get_recipe_count ix = 2)"
proof -
  from two_recipes_built obtain ix lg where
    built: "new_indexer overlap_scores plain_normalizer (Some two_recipes) []
              = Inr (ix, accepted two_recipes, lg)"
    and rs: "recipes ix = [0, 1]"
    by blast
  have k: "(0::int) \<le> 1" by simp
  from search_top_k[OF built overlap_scores_contract k, of "[]" "[''pasta'']"] pasta_tokens rs
  obtain res h'' where "search ix (searches ix (accepted two_recipes) []) [''pasta''] 1 = (Inr res, h'')"
    and "length res = 1" and "get_recipe_count ix = 2"
    by (auto simp: get_recipe_count_def)
  with built pasta_tokens k show ?thesis by blast
qed

lemma two_recipes_lookup:
  "get_recipe_by_id (accepted two_recipes) [0, 1] 1 = Some 0"
  "get_recipe_by_id (accepted two_recipes) [0, 1] 999 = None"
  by code_simp+

text \<open>Claim C9 on the index of the two recipes, after two searches: the id 1 is found, without
  a score, and the id 999 is not.\<close>

theorem search_frame_witness:
  "\<exists>ix h lg. new_indexer overlap_scores plain_normalizer (Some two_recipes) [] = Inr (ix, h, lg)
     \<and> get_recipe_by_id (searches ix h [([''rice''], 5), ([''tomato''], 1)]) (recipes ix) 1 = Some 0
     \<and> score (searches ix h [([''rice''], 5), ([''tomato''], 1)] ! 0) = None
     \<and> get_recipe_by_id (searches ix h [([''rice''], 5), ([''tomato''], 1)]) (recipes ix) 999 = None"
proof -
  from two_recipes_built obtain ix lg where
    built: "new_indexer overlap_scores plain_normalizer (Some two_recipes) []
              = Inr (ix, accepted two_recipes, lg)"
    and rs: "recipes ix = [0, 1]"
    by blast
  let ?qs = "[([''rice''], 5), ([''tomato''], 1::int)]"
  let ?h = "accepted two_recipes"
  from search_frame[OF built, of ?qs 1]
  have keep: "\<forall>a\<in>set (recipes ix). searches ix ?h ?qs ! a = ?h ! a \<and> score (?h ! a) = None"
    and "get_recipe_by_id (searches ix ?h ?qs) (recipes ix) 1 = get_recipe_by_id ?h (recipes ix) 1"
    by blast+
  then have 1: "get_recipe_by_id (searches ix ?h ?qs) (recipes ix) 1 = Some 0"
    by (simp only: rs two_recipes_lookup)
  have "0 \<in> set (recipes ix)" by (simp add: rs)
  with keep have 2: "score (searches ix ?h ?qs ! 0) = None" by metis
  from search_frame[OF built, of ?qs 999]
  have "get_recipe_by_id (searches ix ?h ?qs) (recipes ix) 999 = get_recipe_by_id ?h (recipes ix) 999"
    by blast
  then have 3: "get_recipe_by_id (searches ix ?h ?qs) (recipes ix) 999 = None"
    by (simp only: rs two_recipes_lookup)
  from built 1 2 3 show ?thesis by blast
qed

lemma two_recipes_ids: "map rid (accepted two_recipes) = [1, 2]"
  by code_simp

text \<open>The amended claim C10 on the index of the two recipes.\<close>

theorem loaded_ids_from_rows_witness:
  "\<exists>ix h lg. new_indexer overlap_scores plain_normalizer (Some two_recipes) [] = Inr (ix, h, lg)
     \<and> loaded_ids ix h = [1, 2] \<and> distinct (loaded_ids ix h)
     \<and> get_recipe_by_id h (recipes ix) 2 = find (\<lambda>a. rid (h ! a) = 2) (recipes ix)"
proof -
  from two_recipes_built obtain ix lg where
    built: "new_indexer overlap_scores plain_normalizer (Some two_recipes) []
              = Inr (ix, accepted two_recipes, lg)"
    by blast
  from loaded_ids_from_rows[OF built, of 2] two_recipes_ids built show ?thesis
    by (intro exI[of _ ix] exI[of _ "accepted two_recipes"] exI[of _ lg]) simp
qed

lemma duplicate_rows_loaded:
  "load_recipes (Some duplicate_id_rows) [] = Inr ([0, 1], accepted duplicate_id_rows, [Loaded 2])"
  by code_simp

lemma duplicate_rows_ids: "map (\<lambda>a. rid (accepted duplicate_id_rows ! a)) [0, 1] = [1, 1]"
  by code_simp

text \<open>Claim C10 as stated fails: a file whose two lines carry the id 1 is accepted, and the
  loaded collection has the id 1 twice.\<close>

theorem duplicate_ids_are_loaded:
  "(case new_indexer overlap_scores plain_normalizer (Some duplicate_id_rows) [] of
      Inl e \<Rightarrow> []
    | Inr (ix, h, lg) \<Rightarrow> loaded_ids ix h) = [1, 1]"
  using duplicate_rows_ids
  by (simp add: new_indexer_def duplicate_rows_loaded overlap_scores_def loaded_ids_def)

end
